theory Spec2Isabelle
  imports Main "HOL-Library.Word"
begin

section \<open>The DOM stack of src/document/dom/stack.c\<close>

subsection \<open>Pointers, nodes and node lists\<close>

text \<open>
  A pointer is an address; address 0 is the NULL pointer. Function pointers
  (\<^verbatim>\<open>dom_stack_callback_T\<close>) are addresses too: what the function at an address does
  is given by the environment, below. A frame's \<^verbatim>\<open>void *data\<close> is the address of a
  byte of an allocated block: it is \<open>None\<close> for NULL and \<open>Some (b, off)\<close> for the byte
  \<open>off\<close> of the block \<open>b\<close>. It is set once, when the frame is pushed, to
  \<^verbatim>\<open>&state_objects[offset]\<close> in the block that \<^verbatim>\<open>state_objects\<close> is at that time; a
  later reallocation of \<^verbatim>\<open>state_objects\<close> gives another block, and the pointer still
  names the old one.
\<close>

type_synonym node_ptr = nat
type_synonym list_ptr = nat
type_synonym callback_ptr = nat
type_synonym data_ptr = "(nat \<times> nat) option"

abbreviation NULL :: nat where
  "NULL \<equiv> 0"

text \<open>
  The node kinds are the twelve enumerators that the switch of \<^verbatim>\<open>walk_dom_nodes\<close>
  names; \<^verbatim>\<open>assert(0 < node->type && node->type < DOM_NODES)\<close> admits no other value.
\<close>

datatype dom_node_type =
    DOM_NODE_ELEMENT
  | DOM_NODE_ATTRIBUTE
  | DOM_NODE_TEXT
  | DOM_NODE_CDATA_SECTION
  | DOM_NODE_ENTITY_REFERENCE
  | DOM_NODE_ENTITY
  | DOM_NODE_PROCESSING_INSTRUCTION
  | DOM_NODE_COMMENT
  | DOM_NODE_DOCUMENT
  | DOM_NODE_DOCUMENT_TYPE
  | DOM_NODE_DOCUMENT_FRAGMENT
  | DOM_NODE_NOTATION

text \<open>
  \<^verbatim>\<open>struct dom_node\<close>, declared in node.h: the fields that stack.c reads. The members of the union \<^verbatim>\<open>node->data\<close> are laid side by side; the
  code reads only those of the node's own type.
\<close>

record dom_node =
  type :: dom_node_type
  string :: string
  document_children :: list_ptr
  element_map :: list_ptr
  element_children :: list_ptr
  proc_instruction_map :: list_ptr
  document_type_entities :: list_ptr
  document_type_notations :: list_ptr

subsection \<open>Frames, the stack and the world around it\<close>

text \<open>\<^verbatim>\<open>struct dom_stack_state\<close>: one frame, with the fields stack.c uses.\<close>

record dom_stack_state =
  node :: node_ptr
  list :: list_ptr
  index :: nat
  callback :: callback_ptr
  data :: data_ptr

text \<open>What \<^verbatim>\<open>memset(state, 0, sizeof(*state))\<close> leaves.\<close>

definition zero_state :: dom_stack_state where
  "zero_state = \<lparr>node = NULL, list = NULL, index = 0, callback = NULL, data = None\<rparr>"

text \<open>
  \<^verbatim>\<open>struct dom_stack\<close>. The arrays \<^verbatim>\<open>states\<close> and \<^verbatim>\<open>state_objects\<close> are lists of
  their allocated length; the empty list is the NULL pointer. \<open>state_objects_block\<close>
  names the block that \<^verbatim>\<open>state_objects\<close> points to. The field \<^verbatim>\<open>data\<close> of the stack
  is called \<open>stack_data\<close> here.
\<close>

record dom_stack =
  states :: "dom_stack_state list"
  depth :: nat
  object_size :: nat
  state_objects :: "8 word list"
  state_objects_block :: nat
  callbacks :: "dom_node_type \<Rightarrow> callback_ptr"
  stack_data :: nat

text \<open>
  The history of a run: the frames opened and closed, the callbacks called with their
  arguments, and the nodes handed to \<^verbatim>\<open>done_dom_node\<close>, in order.
\<close>

datatype event =
    Push node_ptr
  | Entry callback_ptr node_ptr data_ptr
  | Unpush node_ptr
  | Exit callback_ptr node_ptr data_ptr
  | Pop node_ptr
  | Destroy node_ptr

text \<open>
  The world: the stack, the heap of nodes and of node lists, the outcomes of the
  coming calls of the allocator (\<open>True\<close>: the call succeeds; once the list is used up
  every call succeeds), and the history.
\<close>

record world =
  stack :: dom_stack
  nodes :: "node_ptr \<rightharpoonup> dom_node"
  lists :: "list_ptr \<rightharpoonup> node_ptr list"
  allocs :: "bool list"
  trace :: "event list"

text \<open>
  The environment of the code: the constant \<^verbatim>\<open>DOM_STACK_MAX_DEPTH\<close> of stack.h,
  taken as a parameter, and what a callback does when it is called as \<^verbatim>\<open>callback(stack, node, data)\<close>: it returns a node pointer and may have
  changed the stack it was given.
\<close>

record env =
  DOM_STACK_MAX_DEPTH :: nat
  run :: "callback_ptr \<Rightarrow> dom_stack \<Rightarrow> node_ptr \<Rightarrow> data_ptr \<Rightarrow> node_ptr \<times> dom_stack"

text \<open>
  The ways a call ends without a result. The first three are the NULL returns of
  \<^verbatim>\<open>push_dom_node\<close>, told apart by the place of the return. \<open>Fatal\<close> is a failed
  \<^verbatim>\<open>assert\<close>, or an access through a pointer that does not point into its array or
  heap, where C leaves the behaviour undefined.
\<close>

datatype error = DepthExceeded | OutOfMemory | Rejected | Fatal

definition deref :: "world \<Rightarrow> node_ptr \<Rightarrow> dom_node option" where
  "deref w p = (if p = NULL then None else nodes w p)"

definition state_at :: "dom_stack \<Rightarrow> int \<Rightarrow> dom_stack_state option" where
  "state_at s i = (if 0 \<le> i \<and> nat i < length (states s) then Some (states s ! nat i) else None)"

subsection \<open>What stack.c takes from its headers\<close>

text \<open>
  Modelled from the spec: \<^verbatim>\<open>dom_stack_has_parents\<close> (stack.h), "has an open frame to
  remove", "while any frame remains on the stack".
\<close>

definition dom_stack_has_parents :: "dom_stack \<Rightarrow> bool" where
  "dom_stack_has_parents s = (0 < depth s)"

text \<open>
  Modelled from the spec: \<^verbatim>\<open>get_dom_stack_top\<close> (stack.h), "the current top frame", as
  a position in \<^verbatim>\<open>states\<close>.
\<close>

definition get_dom_stack_top :: "dom_stack \<Rightarrow> int" where
  "get_dom_stack_top s = int (depth s) - 1"

text \<open>
  Modelled from the spec: \<^verbatim>\<open>get_dom_stack_parent\<close> (stack.h), "the frame immediately
  below the top", as a position in \<^verbatim>\<open>states\<close>. The parent of the only frame is the
  position \<open>-1\<close>, outside the array.
\<close>

definition get_dom_stack_parent :: "dom_stack \<Rightarrow> int" where
  "get_dom_stack_parent s = int (depth s) - 2"

text \<open>
  Modelled from the spec: \<^verbatim>\<open>is_dom_node_list_member\<close> (node.h), "is there an element
  at index i (bounds-checked, false for out-of-range or null collection)".
\<close>

definition is_dom_node_list_member :: "world \<Rightarrow> list_ptr \<Rightarrow> nat \<Rightarrow> bool" where
  "is_dom_node_list_member w l i =
     (if l = NULL then False
      else case lists w l of None \<Rightarrow> False | Some entries \<Rightarrow> i < length entries)"

text \<open>
  Modelled from the spec: \<^verbatim>\<open>list->entries[i]\<close> (\<^verbatim>\<open>struct dom_node_list\<close>, node.h),
  "memberAt(collection, index)", where there is a member at the index.
\<close>

definition dom_node_list_entry :: "world \<Rightarrow> list_ptr \<Rightarrow> nat \<Rightarrow> node_ptr option" where
  "dom_node_list_entry w l i =
     (if is_dom_node_list_member w l i
      then (case lists w l of None \<Rightarrow> None | Some entries \<Rightarrow> Some (entries ! i))
      else None)"

text \<open>
  Modelled from the spec: \<^verbatim>\<open>done_dom_node\<close> (node.c), "the node that was about to be
  pushed is destroyed". The call is written into the history.
\<close>

definition done_dom_node :: "node_ptr \<Rightarrow> world \<Rightarrow> world" where
  "done_dom_node n w = w\<lparr>trace := trace w @ [Destroy n]\<rparr>"

text \<open>
  Modelled from the spec: the rounding of \<^verbatim>\<open>mem_align_alloc\<close> (util/memory.h) with the
  granularity \<^verbatim>\<open>DOM_STACK_STATE_GRANULARITY\<close> of stack.c, "the next multiple of a fixed
  granularity (8) at or above the new required size".
\<close>

definition ALIGN_MEMORY_SIZE :: "nat \<Rightarrow> nat" where
  "ALIGN_MEMORY_SIZE x = ((x + 7) div 8) * 8"

text \<open>
  Modelled from the spec: the allocator under \<^verbatim>\<open>mem_align_alloc\<close>, whose failure is
  the spec's "OutOfMemory condition". A call takes its outcome from the world.
\<close>

definition mem_realloc :: "world \<Rightarrow> bool \<times> world" where
  "mem_realloc w = (case allocs w of [] \<Rightarrow> (True, w) | b # bs \<Rightarrow> (b, w\<lparr>allocs := bs\<rparr>))"

text \<open>
  Modelled from the spec: \<^verbatim>\<open>mem_align_alloc\<close> (util/memory.h), "when depth needs to
  increase by one, reallocate the backing array to the next multiple of a fixed
  granularity (8) at or above the new required size; existing entries are preserved by
  copy". The array is reallocated when the new size rounds up to more than the old one
  does; the part added is zeroed (the spec's new frame has its collection unset and its
  cursor 0). Otherwise the pointer is returned as it is. \<open>None\<close> is the NULL result, and
  \<open>zero\<close> the zeroed element.
\<close>

definition mem_align_alloc ::
  "'a \<Rightarrow> 'a list \<Rightarrow> nat \<Rightarrow> nat \<Rightarrow> nat \<Rightarrow> world \<Rightarrow> 'a list option \<times> world" where
  "mem_align_alloc zero ptr old new objsize w =
     (let newsize = ALIGN_MEMORY_SIZE new; oldsize = ALIGN_MEMORY_SIZE old in
      if newsize > oldsize then
        (case mem_realloc w of
           (False, w') \<Rightarrow> (None, w')
         | (True, w') \<Rightarrow>
             (Some (take (oldsize * objsize) ptr @ replicate ((newsize - oldsize) * objsize) zero),
              w'))
      else (if ptr = [] then None else Some ptr, w))"

subsection \<open>stack.c\<close>

text \<open>
  \<^verbatim>\<open>realloc_dom_stack_states(&stack->states, stack->depth)\<close> and
  \<^verbatim>\<open>realloc_dom_stack_state_objects(stack)\<close>: the result tells whether the pointer
  returned is not NULL; on success the array is stored in the stack. Where
  \<^verbatim>\<open>mem_align_alloc\<close> reallocates, which it does when the rounded sizes differ, the
  payload array is a new block: C makes the pointers into the old block invalid, wherever
  the new one lies.
\<close>

definition realloc_dom_stack_states :: "world \<Rightarrow> bool \<times> world" where
  "realloc_dom_stack_states w =
     (let s = stack w in
      case mem_align_alloc zero_state (states s) (depth s) (depth s + 1) 1 w of
        (None, w') \<Rightarrow> (False, w')
      | (Some a, w') \<Rightarrow> (True, w'\<lparr>stack := s\<lparr>states := a\<rparr>\<rparr>))"

definition realloc_dom_stack_state_objects :: "world \<Rightarrow> bool \<times> world" where
  "realloc_dom_stack_state_objects w =
     (let s = stack w in
      case mem_align_alloc 0 (state_objects s) (depth s) (depth s + 1) (object_size s) w of
        (None, w') \<Rightarrow> (False, w')
      | (Some a, w') \<Rightarrow>
          (True,
           w'\<lparr>stack := s\<lparr>state_objects := a,
                          state_objects_block :=
                            (if ALIGN_MEMORY_SIZE (depth s) < ALIGN_MEMORY_SIZE (depth s + 1)
                             then Suc (state_objects_block s)
                             else state_objects_block s)\<rparr>\<rparr>))"

text \<open>\<^verbatim>\<open>init_dom_stack\<close>; \<open>None\<close> is a NULL \<^verbatim>\<open>callbacks\<close> argument.\<close>

definition init_dom_stack ::
  "nat \<Rightarrow> (dom_node_type \<Rightarrow> callback_ptr) option \<Rightarrow> nat \<Rightarrow> dom_stack" where
  "init_dom_stack dat cbs osize =
     \<lparr>states = [], depth = 0, object_size = osize, state_objects = [],
      state_objects_block = 0,
      callbacks = (case cbs of None \<Rightarrow> (\<lambda>_. NULL) | Some t \<Rightarrow> t), stack_data = dat\<rparr>"

text \<open>
  \<^verbatim>\<open>push_dom_node\<close>, lines 95 to 106: the payload of the frame at \<^verbatim>\<open>stack->depth\<close>.
  The result is false when the allocation failed. \<^verbatim>\<open>state->data\<close> is the address of the
  byte \<^verbatim>\<open>offset\<close> of the block returned.
\<close>

definition push_state_data :: "world \<Rightarrow> bool \<times> world" where
  "push_state_data w =
     (if object_size (stack w) \<noteq> 0 then
        (let offset = depth (stack w) * object_size (stack w) in
         case realloc_dom_stack_state_objects w of
           (False, w') \<Rightarrow> (False, w')
         | (True, w') \<Rightarrow>
             (let s = stack w'; d = depth s in
              (True,
               w'\<lparr>stack := s\<lparr>states :=
                                (states s)[d := (states s ! d)
                                                  \<lparr>data := Some (state_objects_block s, offset)\<rparr>]\<rparr>\<rparr>)))
      else (True, w))"

text \<open>\<^verbatim>\<open>push_dom_node\<close>, lines 108 to 112: \<^verbatim>\<open>state->node = node; stack->depth++\<close>.\<close>

definition push_state_node :: "world \<Rightarrow> node_ptr \<Rightarrow> world" where
  "push_state_node w n =
     (let s = stack w; d = depth s in
      w\<lparr>stack := s\<lparr>states := (states s)[d := (states s ! d)\<lparr>node := n\<rparr>], depth := d + 1\<rparr>,
        trace := trace w @ [Push n]\<rparr>)"

text \<open>
  \<^verbatim>\<open>push_dom_node\<close>, lines 114 to 126: the entry callback. \<open>i\<close> is the position of
  \<^verbatim>\<open>state\<close>, fixed before the call; \<^verbatim>\<open>state->data\<close> is read before the call, the
  frame is cleared and the depth decremented in the stack that the callback left.
\<close>

definition push_callback ::
  "env \<Rightarrow> world \<Rightarrow> nat \<Rightarrow> node_ptr \<Rightarrow> dom_node_type \<Rightarrow> (error + node_ptr) \<times> world" where
  "push_callback env w i n ty =
     (let s = stack w; cb = callbacks s ty in
      if cb \<noteq> NULL then
        (let d = data (states s ! i);
             (r, s') = run env cb s n d;
             w' = w\<lparr>stack := s', trace := trace w @ [Entry cb n d]\<rparr>
         in if r = NULL then
              (if length (states s') \<le> i \<or> depth s' = 0 then (Inl Fatal, w')
               else (Inl Rejected,
                     w'\<lparr>stack := s'\<lparr>states := (states s')[i := zero_state], depth := depth s' - 1\<rparr>,
                        trace := trace w' @ [Unpush n]\<rparr>))
            else (Inr r, w'))
      else (Inr n, w))"

definition push_dom_node :: "env \<Rightarrow> world \<Rightarrow> node_ptr \<Rightarrow> (error + node_ptr) \<times> world" where
  "push_dom_node env w n =
     (case deref w n of
        None \<Rightarrow> (Inl Fatal, w)
      | Some nd \<Rightarrow>
          if depth (stack w) > DOM_STACK_MAX_DEPTH env then (Inl DepthExceeded, w)
          else
            (case realloc_dom_stack_states w of
               (False, w1) \<Rightarrow> (Inl OutOfMemory, done_dom_node n w1)
             | (True, w1) \<Rightarrow>
                 if length (states (stack w1)) \<le> depth (stack w1) then (Inl Fatal, w1)
                 else
                   (case push_state_data w1 of
                      (False, w2) \<Rightarrow> (Inl OutOfMemory, done_dom_node n w2)
                    | (True, w2) \<Rightarrow>
                        push_callback env (push_state_node w2 n) (depth (stack w)) n (type nd))))"

text \<open>
  \<^verbatim>\<open>do_pop_dom_node\<close>. \<open>parent\<close> is the position of the frame that \<^verbatim>\<open>parent\<close>
  points to. The position of \<^verbatim>\<open>state\<close> is fixed before the exit callback runs;
  \<^verbatim>\<open>stack->depth--\<close> and the second reading of \<^verbatim>\<open>state->data\<close> see the stack that the
  callback left. \<^verbatim>\<open>assert(stack->depth >= 0)\<close> after the decrement is the check that the
  depth was not 0.
\<close>

definition pop_callback :: "env \<Rightarrow> world \<Rightarrow> dom_stack_state \<Rightarrow> int \<Rightarrow> world option" where
  "pop_callback env w state parent =
     (if callback state \<noteq> NULL then
        (case state_at (stack w) parent of
           None \<Rightarrow> None
         | Some p \<Rightarrow>
             Some (w\<lparr>stack := snd (run env (callback state) (stack w) (node p) (data state)),
                     trace := trace w @ [Exit (callback state) (node p) (data state)]\<rparr>))
      else Some w)"

definition zero_object :: "nat \<Rightarrow> nat \<Rightarrow> 8 word list \<Rightarrow> 8 word list" where
  "zero_object offset n objs =
     map (\<lambda>j. if offset \<le> j \<and> j < offset + n then 0 else objs ! j) [0..<length objs]"

definition do_pop_dom_node :: "env \<Rightarrow> world \<Rightarrow> int \<Rightarrow> (error + bool) \<times> world" where
  "do_pop_dom_node env w parent =
     (if \<not> dom_stack_has_parents (stack w) then (Inr False, w)
      else
        (let top = get_dom_stack_top (stack w) in
         case state_at (stack w) top of
           None \<Rightarrow> (Inl Fatal, w)
         | Some state \<Rightarrow>
             (case pop_callback env w state parent of
                None \<Rightarrow> (Inl Fatal, w)
              | Some w1 \<Rightarrow>
                  (let s1 = stack w1 in
                   if depth s1 = 0 then (Inl Fatal, w1)
                   else
                     (case state_at s1 top of
                        None \<Rightarrow> (Inl Fatal, w1)
                      | Some state1 \<Rightarrow>
                          (let d = depth s1 - 1;
                               objs = (if object_size s1 \<noteq> 0 \<and> data state1 \<noteq> None
                                       then zero_object (d * object_size s1) (object_size s1)
                                              (state_objects s1)
                                       else state_objects s1)
                           in (Inr (top = parent),
                               w1\<lparr>stack := s1\<lparr>depth := d, state_objects := objs,
                                               states := (states s1)[nat top := zero_state]\<rparr>,
                                  trace := trace w1 @ [Pop (node state1)]\<rparr>)))))))"

text \<open>\<^verbatim>\<open>pop_dom_node\<close>.\<close>

definition pop_dom_node :: "env \<Rightarrow> world \<Rightarrow> (error + unit) \<times> world" where
  "pop_dom_node env w =
     (if \<not> dom_stack_has_parents (stack w) then (Inr (), w)
      else
        (case do_pop_dom_node env w (get_dom_stack_parent (stack w)) of
           (Inl e, w') \<Rightarrow> (Inl e, w')
         | (Inr _, w') \<Rightarrow> (Inr (), w')))"

text \<open>
  Modelled from the spec: the test of \<^verbatim>\<open>search_dom_stack\<close> (stack.h) on one frame, "whose
  node has the given kind and whose name matches name by exact, length-bounded comparison".
\<close>

definition state_matches :: "world \<Rightarrow> dom_node_type \<Rightarrow> string \<Rightarrow> int \<Rightarrow> bool" where
  "state_matches w ty str i =
     (case state_at (stack w) i of
        None \<Rightarrow> False
      | Some state \<Rightarrow>
          (case deref w (node state) of
             None \<Rightarrow> False
           | Some nd \<Rightarrow> type nd = ty \<and> string nd = str))"

text \<open>
  Modelled from the spec: \<^verbatim>\<open>search_dom_stack\<close> (stack.h), "scans frames from the
  current top down toward the root, returning the nearest frame" that matches, "not found if
  no such frame exists". \<open>search_below w ty str k\<close> scans the frames at the positions
  below \<open>k\<close>, the highest first.
\<close>

fun search_below :: "world \<Rightarrow> dom_node_type \<Rightarrow> string \<Rightarrow> nat \<Rightarrow> int option" where
  "search_below w ty str 0 = None"
| "search_below w ty str (Suc k) =
     (if state_matches w ty str (int k) then Some (int k) else search_below w ty str k)"

text \<open>
  Modelled from the spec: \<^verbatim>\<open>search_dom_stack\<close> (stack.h), the scan from the current
  top.
\<close>

definition search_dom_stack :: "world \<Rightarrow> dom_node_type \<Rightarrow> string \<Rightarrow> int option" where
  "search_dom_stack w ty str = search_below w ty str (depth (stack w))"

text \<open>
  Modelled from the spec: the iterator \<^verbatim>\<open>foreachback_dom_state\<close> (stack.h) of the loop
  of \<^verbatim>\<open>pop_dom_nodes\<close>: it goes over the frames from the top down, one round for each
  frame that was on the stack when the loop began, so that the loop "repeatedly pops frames
  until the popped frame is identical to the target frame, then stops". \<open>k\<close> counts the
  rounds left; the body of the loop is the one of stack.c.
\<close>

fun pop_dom_nodes_loop :: "env \<Rightarrow> int \<Rightarrow> nat \<Rightarrow> world \<Rightarrow> (error + unit) \<times> world" where
  "pop_dom_nodes_loop env parent 0 w = (Inr (), w)"
| "pop_dom_nodes_loop env parent (Suc k) w =
     (case do_pop_dom_node env w parent of
        (Inl e, w') \<Rightarrow> (Inl e, w')
      | (Inr hit, w') \<Rightarrow> if hit then (Inr (), w') else pop_dom_nodes_loop env parent k w')"

text \<open>\<^verbatim>\<open>pop_dom_nodes\<close>; the string carries its length.\<close>

definition pop_dom_nodes ::
  "env \<Rightarrow> world \<Rightarrow> dom_node_type \<Rightarrow> string \<Rightarrow> (error + unit) \<times> world" where
  "pop_dom_nodes env w ty str =
     (if \<not> dom_stack_has_parents (stack w) then (Inr (), w)
      else
        (case search_dom_stack w ty str of
           None \<Rightarrow> (Inr (), w)
         | Some parent \<Rightarrow> pop_dom_nodes_loop env parent (depth (stack w)) w))"

text \<open>
  \<^verbatim>\<open>walk_dom_nodes\<close>, lines 199 to 240: the list that the switch on \<^verbatim>\<open>node->type\<close>
  chooses for the frame \<open>state\<close> of the node \<open>nd\<close>.
\<close>

definition walk_list :: "world \<Rightarrow> dom_node \<Rightarrow> dom_stack_state \<Rightarrow> list_ptr" where
  "walk_list w nd state =
     (case type nd of
        DOM_NODE_DOCUMENT \<Rightarrow>
          (if list state = NULL then document_children nd else list state)
      | DOM_NODE_ELEMENT \<Rightarrow>
          (let l = (if list state = NULL then element_map nd else list state) in
           if l = element_children nd then l
           else if is_dom_node_list_member w l (index state) \<and> l = element_map nd then l
           else element_children nd)
      | DOM_NODE_PROCESSING_INSTRUCTION \<Rightarrow>
          (if list state = NULL then proc_instruction_map nd else list state)
      | DOM_NODE_DOCUMENT_TYPE \<Rightarrow>
          (let l = (if list state = NULL then document_type_entities nd else list state) in
           if l = document_type_notations nd then l
           else if is_dom_node_list_member w l (index state) \<and> l = document_type_entities nd
                then l
           else document_type_notations nd)
      | _ \<Rightarrow> list state)"

text \<open>
  \<^verbatim>\<open>walk_dom_nodes\<close>, lines 242 to 246: the frame with the list chosen, its index
  reset when the list is a new one. After these lines \<^verbatim>\<open>state->list\<close> is \<^verbatim>\<open>list\<close>.
\<close>

definition walk_state :: "world \<Rightarrow> dom_node \<Rightarrow> dom_stack_state \<Rightarrow> dom_stack_state" where
  "walk_state w nd state =
     (let l = walk_list w nd state in
      if l \<noteq> list state then state\<lparr>list := l, index := 0\<rparr> else state)"

text \<open>
  One round of the loop of \<^verbatim>\<open>walk_dom_nodes\<close>, lines 195 to 256. \<open>set_top\<close>
  writes the frame back, with its list and index, before the child is pushed or the frame
  popped.
\<close>

definition set_top :: "world \<Rightarrow> dom_stack_state \<Rightarrow> world" where
  "set_top w state =
     w\<lparr>stack := (stack w)\<lparr>states := (states (stack w))[nat (get_dom_stack_top (stack w)) := state]\<rparr>\<rparr>"

definition walk_body :: "env \<Rightarrow> world \<Rightarrow> (error + unit) \<times> world" where
  "walk_body env w =
     (case state_at (stack w) (get_dom_stack_top (stack w)) of
        None \<Rightarrow> (Inl Fatal, w)
      | Some state \<Rightarrow>
          (case deref w (node state) of
             None \<Rightarrow> (Inl Fatal, w)
           | Some nd \<Rightarrow>
               (let state1 = walk_state w nd state
                in case dom_node_list_entry w (list state1) (index state1) of
                     Some child \<Rightarrow>
                       (case push_dom_node env (set_top w (state1\<lparr>index := index state1 + 1\<rparr>)) child of
                          (Inr _, w') \<Rightarrow> (Inr (), w')
                        | (Inl e, w') \<Rightarrow> if e = Fatal then (Inl Fatal, w') else pop_dom_node env w')
                   | None \<Rightarrow> pop_dom_node env (set_top w state1))))"

text \<open>
  The loop of \<^verbatim>\<open>walk_dom_nodes\<close>. Nothing bounds the number of its rounds, so the loop
  is a partial function: \<open>None\<close> means that it does not return.
\<close>

partial_function (option) walk_loop :: "env \<Rightarrow> world \<Rightarrow> ((error + unit) \<times> world) option" where
  "walk_loop env w =
     (if dom_stack_has_parents (stack w) then
        (case walk_body env w of
           (Inl e, w') \<Rightarrow> Some (Inl e, w')
         | (Inr _, w') \<Rightarrow> walk_loop env w')
      else Some (Inr (), w))"

text \<open>\<^verbatim>\<open>walk_dom_nodes\<close>; the result of pushing the root is not looked at.\<close>

definition walk_dom_nodes :: "env \<Rightarrow> world \<Rightarrow> node_ptr \<Rightarrow> ((error + unit) \<times> world) option" where
  "walk_dom_nodes env w root =
     (case push_dom_node env w root of
        (Inl Fatal, w') \<Rightarrow> Some (Inl Fatal, w')
      | (_, w') \<Rightarrow> walk_loop env w')"

text \<open>
  The first \<open>k\<close> rounds of the same loop, to run it on a given input; \<open>walk_loop\<close>
  returns what the rounds give as soon as they empty the stack or fail
  (lemma \<open>walk_loop_rounds\<close>).
\<close>

fun walk_rounds :: "nat \<Rightarrow> env \<Rightarrow> world \<Rightarrow> (error + unit) \<times> world" where
  "walk_rounds 0 env w = (Inr (), w)"
| "walk_rounds (Suc k) env w =
     (if dom_stack_has_parents (stack w) then
        (case walk_body env w of
           (Inl e, w') \<Rightarrow> (Inl e, w')
         | (Inr _, w') \<Rightarrow> walk_rounds k env w')
      else (Inr (), w))"

subsection \<open>Notions used in the statements\<close>

text \<open>
  Callbacks that leave the frame array and the depth as they found them: they may
  write the payloads, the context and the callback table, and whatever else lies outside
  the stack.
\<close>

definition leaves_frames :: "env \<Rightarrow> bool" where
  "leaves_frames env =
     (\<forall>c s n d. states (snd (run env c s n d)) = states s \<and>
                depth (snd (run env c s n d)) = depth s)"

text \<open>
  The frame slots from the depth on are cleared, as \<^verbatim>\<open>init_dom_stack\<close>, the growth
  of the array, a rejected push and a pop leave them.
\<close>

definition unused_cleared :: "dom_stack \<Rightarrow> bool" where
  "unused_cleared s = list_all (\<lambda>f. f = zero_state) (drop (depth s) (states s))"

text \<open>
  What the spec says of an unwind, in its words: the frames \<open>fs\<close> are removed in the
  order given, and the exit callback of each, where one is set, is called with the node
  \<open>ctx\<close> of the target frame and the payload of the frame removed.
\<close>

definition unwind_events :: "node_ptr \<Rightarrow> dom_stack_state list \<Rightarrow> event list" where
  "unwind_events ctx fs =
     concat (map (\<lambda>f. (if callback f \<noteq> NULL then [Exit (callback f) ctx (data f)] else [])
                       @ [Pop (node f)]) fs)"

subsection \<open>Documents and callbacks to run the code on\<close>

definition leaf :: "dom_node_type \<Rightarrow> string \<Rightarrow> dom_node" where
  "leaf ty str =
     \<lparr>type = ty, string = str, document_children = NULL, element_map = NULL,
      element_children = NULL, proc_instruction_map = NULL, document_type_entities = NULL,
      document_type_notations = NULL\<rparr>"

text \<open>Document (1) - Element "div" (2) - Element "span" (3) - Text "x" (4).\<close>

definition tree_nodes :: "node_ptr \<rightharpoonup> dom_node" where
  "tree_nodes =
     [1 \<mapsto> (leaf DOM_NODE_DOCUMENT [])\<lparr>document_children := 10\<rparr>,
      2 \<mapsto> (leaf DOM_NODE_ELEMENT ''div'')\<lparr>element_children := 11\<rparr>,
      3 \<mapsto> (leaf DOM_NODE_ELEMENT ''span'')\<lparr>element_children := 12\<rparr>,
      4 \<mapsto> leaf DOM_NODE_TEXT ''x'']"

definition tree_lists :: "list_ptr \<rightharpoonup> node_ptr list" where
  "tree_lists = [10 \<mapsto> [2], 11 \<mapsto> [3], 12 \<mapsto> [4]]"

text \<open>
  The same document with a second element "p" (7) that is in no list and has the one
  child Text "y" (8).
\<close>

definition spare_nodes :: "node_ptr \<rightharpoonup> dom_node" where
  "spare_nodes =
     tree_nodes(7 \<mapsto> (leaf DOM_NODE_ELEMENT ''p'')\<lparr>element_children := 14\<rparr>,
                8 \<mapsto> leaf DOM_NODE_TEXT ''y'')"

definition spare_lists :: "list_ptr \<rightharpoonup> node_ptr list" where
  "spare_lists = tree_lists(14 \<mapsto> [8])"

text \<open>
  Document (1) - Element "div" (2) with the attributes "id" (5) and "class" (6) and the
  children "span" (3) and "p" (7); "span" has the child Text "x" (4).
\<close>

definition page_nodes :: "node_ptr \<rightharpoonup> dom_node" where
  "page_nodes =
     [1 \<mapsto> (leaf DOM_NODE_DOCUMENT [])\<lparr>document_children := 10\<rparr>,
      2 \<mapsto> (leaf DOM_NODE_ELEMENT ''div'')\<lparr>element_map := 13, element_children := 11\<rparr>,
      3 \<mapsto> (leaf DOM_NODE_ELEMENT ''span'')\<lparr>element_children := 12\<rparr>,
      4 \<mapsto> leaf DOM_NODE_TEXT ''x'',
      5 \<mapsto> leaf DOM_NODE_ATTRIBUTE ''id'',
      6 \<mapsto> leaf DOM_NODE_ATTRIBUTE ''class'',
      7 \<mapsto> leaf DOM_NODE_ELEMENT ''p'']"

definition page_lists :: "list_ptr \<rightharpoonup> node_ptr list" where
  "page_lists = [10 \<mapsto> [2], 11 \<mapsto> [3, 7], 12 \<mapsto> [4], 13 \<mapsto> [5, 6]]"

text \<open>
  Callbacks: \<open>accept\<close> returns the node it was given; \<open>reject_node x\<close> returns NULL
  for the node \<open>x\<close>; \<open>substitute x y\<close> returns \<open>y\<close> for the node \<open>x\<close>. None of them
  writes the stack.
\<close>

definition accept :: "callback_ptr \<Rightarrow> dom_stack \<Rightarrow> node_ptr \<Rightarrow> data_ptr \<Rightarrow> node_ptr \<times> dom_stack" where
  "accept c s n d = (n, s)"

definition reject_node ::
  "node_ptr \<Rightarrow> callback_ptr \<Rightarrow> dom_stack \<Rightarrow> node_ptr \<Rightarrow> data_ptr \<Rightarrow> node_ptr \<times> dom_stack" where
  "reject_node x c s n d = (if n = x then NULL else n, s)"

definition substitute ::
  "node_ptr \<Rightarrow> node_ptr \<Rightarrow> callback_ptr \<Rightarrow> dom_stack \<Rightarrow> node_ptr \<Rightarrow> data_ptr
     \<Rightarrow> node_ptr \<times> dom_stack" where
  "substitute x y c s n d = (if n = x then y else n, s)"

text \<open>
  A fresh stack, with the callback at address 1 registered for every kind and payloads
  of \<open>osize\<close> bytes, on a given heap.
\<close>

definition fresh_world ::
  "nat \<Rightarrow> (node_ptr \<rightharpoonup> dom_node) \<Rightarrow> (list_ptr \<rightharpoonup> node_ptr list) \<Rightarrow> bool list \<Rightarrow> world" where
  "fresh_world osize ns ls as =
     \<lparr>stack = init_dom_stack 0 (Some (\<lambda>_. 1)) osize, nodes = ns, lists = ls, allocs = as,
      trace = []\<rparr>"

text \<open>
  The frames of Document, "div" and "span" open, "div" and "span" with the exit callback
  at address 9.
\<close>

definition open_frames :: "dom_stack_state list" where
  "open_frames =
     [zero_state\<lparr>node := 1, list := 10, index := 1\<rparr>,
      zero_state\<lparr>node := 2, list := 11, index := 1, callback := 9\<rparr>,
      zero_state\<lparr>node := 3, callback := 9\<rparr>]"

definition open_world :: world where
  "open_world =
     \<lparr>stack = (init_dom_stack 0 (Some (\<lambda>_. 1)) 0)
                 \<lparr>states := open_frames @ replicate 5 zero_state, depth := 3\<rparr>,
      nodes = tree_nodes, lists = tree_lists, allocs = [], trace = []\<rparr>"

text \<open>
  A stack on which the maximum depth is 2: Document and "div" open (depth 2), and
  "span" open on top of them (depth 3).
\<close>

definition env_max2 :: env where
  "env_max2 = \<lparr>DOM_STACK_MAX_DEPTH = 2, run = accept\<rparr>"

definition two_open :: world where
  "two_open =
     snd (push_dom_node env_max2
            (snd (push_dom_node env_max2 (fresh_world 0 tree_nodes tree_lists []) 1)) 2)"

definition three_open :: world where
  "three_open = snd (push_dom_node env_max2 two_open 3)"

text \<open>
  Environments with a maximum depth of 16: every callback accepts; the callback rejects
  "span" (3); the callback answers "p" (7) for "div" (2); the callback rejects the
  attribute "id" (5).
\<close>

definition env_accept :: env where
  "env_accept = \<lparr>DOM_STACK_MAX_DEPTH = 16, run = accept\<rparr>"

definition env_reject_span :: env where
  "env_reject_span = \<lparr>DOM_STACK_MAX_DEPTH = 16, run = reject_node 3\<rparr>"

definition env_substitute :: env where
  "env_substitute = \<lparr>DOM_STACK_MAX_DEPTH = 16, run = substitute 2 7\<rparr>"

definition env_reject_id :: env where
  "env_reject_id = \<lparr>DOM_STACK_MAX_DEPTH = 16, run = reject_node 5\<rparr>"

text \<open>The document with the spare element, Document open.\<close>

definition spare_open :: world where
  "spare_open =
     snd (push_dom_node env_substitute (fresh_world 0 spare_nodes spare_lists []) 1)"

text \<open>
  The page with Document and "div" open, as the first round of the walk leaves it when
  the callback rejects the attribute "id".
\<close>

definition page_open :: world where
  "page_open =
     snd (walk_rounds 1 env_reject_id
            (snd (push_dom_node env_reject_id (fresh_world 0 page_nodes page_lists []) 1)))"

section \<open>Properties\<close>

subsection \<open>Pushing at the depth limit\<close>

lemmas push_defs =
  push_dom_node_def push_callback_def push_state_node_def push_state_data_def
  realloc_dom_stack_states_def realloc_dom_stack_state_objects_def mem_align_alloc_def
  mem_realloc_def done_dom_node_def

text \<open>
  C5. A push of a valid node ends with \<open>DepthExceeded\<close> exactly when the depth is
  strictly greater than \<^verbatim>\<open>DOM_STACK_MAX_DEPTH\<close>: at a depth equal to the maximum the
  push goes on to allocate the frame.
\<close>

theorem push_dom_node_depth_exceeded_iff:
  "deref w n \<noteq> None \<Longrightarrow>
     (fst (push_dom_node env w n) = Inl DepthExceeded)
       = (DOM_STACK_MAX_DEPTH env < depth (stack w))"
  by (auto simp: push_defs Let_def
           split: option.splits prod.splits bool.splits list.splits if_splits)

theorem push_dom_node_depth_exceeded_iff_witness:
  "deref two_open 3 \<noteq> None
   \<and> depth (stack two_open) = DOM_STACK_MAX_DEPTH env_max2
   \<and> fst (push_dom_node env_max2 two_open 3) \<noteq> Inl DepthExceeded
   \<and> fst (push_dom_node env_max2 two_open 3) = Inr 3"
proof -
  have valid: "deref two_open 3 \<noteq> None"
    by code_simp
  have at_max: "depth (stack two_open) = DOM_STACK_MAX_DEPTH env_max2"
    by code_simp
  have pushed: "fst (push_dom_node env_max2 two_open 3) = Inr 3"
    by code_simp
  from push_dom_node_depth_exceeded_iff [OF valid, of env_max2] at_max
  have "fst (push_dom_node env_max2 two_open 3) \<noteq> Inl DepthExceeded"
    by simp
  with valid at_max pushed show ?thesis
    by simp
qed

text \<open>
  C4, as the claim states it, fails: with Document and "div" open and a maximum depth
  of 2 the depth equals the maximum, and pushing "span" succeeds and makes the depth 3.
\<close>

theorem push_at_max_depth_counterexample:
  "depth (stack two_open) = DOM_STACK_MAX_DEPTH env_max2
   \<and> fst (push_dom_node env_max2 two_open 3) = Inr 3
   \<and> depth (stack (snd (push_dom_node env_max2 two_open 3))) = DOM_STACK_MAX_DEPTH env_max2 + 1"
  by code_simp

text \<open>
  C4, amended. A push of a valid node on a stack whose depth is strictly greater than
  \<^verbatim>\<open>DOM_STACK_MAX_DEPTH\<close> ends with \<open>DepthExceeded\<close> and leaves the stack, its frames
  and depth, and everything else as they were; the node is not destroyed.
\<close>

theorem push_dom_node_beyond_max:
  "deref w n \<noteq> None \<Longrightarrow> DOM_STACK_MAX_DEPTH env < depth (stack w) \<Longrightarrow>
     push_dom_node env w n = (Inl DepthExceeded, w)"
  by (auto simp: push_dom_node_def)

theorem push_dom_node_beyond_max_witness:
  "deref three_open 4 \<noteq> None
   \<and> DOM_STACK_MAX_DEPTH env_max2 < depth (stack three_open)
   \<and> push_dom_node env_max2 three_open 4 = (Inl DepthExceeded, three_open)"
proof -
  have valid: "deref three_open 4 \<noteq> None"
    by code_simp
  have beyond: "DOM_STACK_MAX_DEPTH env_max2 < depth (stack three_open)"
    by code_simp
  from push_dom_node_beyond_max [OF valid beyond] valid beyond show ?thesis
    by simp
qed

subsection \<open>The steps of a push\<close>

lemma leaves_framesD:
  "leaves_frames env \<Longrightarrow> run env c s n d = (r, s') \<Longrightarrow> states s' = states s \<and> depth s' = depth s"
  unfolding leaves_frames_def by (metis snd_conv)

lemma leaves_frames_accept: "leaves_frames env_accept"
  by (simp add: leaves_frames_def env_accept_def accept_def)

lemma leaves_frames_reject_span: "leaves_frames env_reject_span"
  by (simp add: leaves_frames_def env_reject_span_def reject_node_def)

lemma leaves_frames_substitute: "leaves_frames env_substitute"
  by (simp add: leaves_frames_def env_substitute_def substitute_def)

lemma ALIGN_MEMORY_SIZE_grows:
  "ALIGN_MEMORY_SIZE d < ALIGN_MEMORY_SIZE (d + 1) \<Longrightarrow> ALIGN_MEMORY_SIZE d = d"
  unfolding ALIGN_MEMORY_SIZE_def by presburger

lemma unused_clearedD:
  assumes "unused_cleared s" and "depth s \<le> i" and "i < length (states s)"
  shows "states s ! i = zero_state"
proof -
  from assms(1) have "\<forall>k < length (states s) - depth s. states s ! (depth s + k) = zero_state"
    by (simp add: unused_cleared_def list_all_length)
  moreover from assms(2,3) have "i - depth s < length (states s) - depth s"
    by simp
  ultimately have "states s ! (depth s + (i - depth s)) = zero_state"
    by blast
  with assms(2) show ?thesis
    by simp
qed

lemma realloc_dom_stack_states_True:
  assumes "realloc_dom_stack_states w = (True, w1)"
  shows "depth (stack w1) = depth (stack w)" "trace w1 = trace w" "nodes w1 = nodes w"
    "lists w1 = lists w" "object_size (stack w1) = object_size (stack w)"
    "callbacks (stack w1) = callbacks (stack w)"
  using assms
  by (auto simp: realloc_dom_stack_states_def mem_align_alloc_def mem_realloc_def Let_def
           split: option.splits prod.splits bool.splits list.splits if_splits)

lemma realloc_dom_stack_states_False:
  assumes "realloc_dom_stack_states w = (False, w1)"
  shows "depth (stack w1) = depth (stack w)" "trace w1 = trace w"
  using assms
  by (auto simp: realloc_dom_stack_states_def mem_align_alloc_def mem_realloc_def Let_def
           split: option.splits prod.splits bool.splits list.splits if_splits)

lemma realloc_dom_stack_state_objects_False:
  assumes "realloc_dom_stack_state_objects w = (False, w1)"
  shows "depth (stack w1) = depth (stack w)" "trace w1 = trace w"
  using assms
  by (auto simp: realloc_dom_stack_state_objects_def mem_align_alloc_def mem_realloc_def Let_def
           split: option.splits prod.splits bool.splits list.splits if_splits)

lemma realloc_dom_stack_states_frame:
  assumes "realloc_dom_stack_states w = (True, w1)" and "unused_cleared (stack w)"
    and "depth (stack w) < length (states (stack w1))"
  shows "states (stack w1) ! depth (stack w) = zero_state"
proof (cases "ALIGN_MEMORY_SIZE (depth (stack w)) < ALIGN_MEMORY_SIZE (depth (stack w) + 1)")
  case True
  then have "ALIGN_MEMORY_SIZE (depth (stack w)) = depth (stack w)"
    by (rule ALIGN_MEMORY_SIZE_grows)
  with True assms show ?thesis
    by (auto simp: realloc_dom_stack_states_def mem_align_alloc_def mem_realloc_def Let_def
                   nth_append
             split: option.splits prod.splits bool.splits list.splits if_splits)
next
  case False
  with assms show ?thesis
    by (auto simp: realloc_dom_stack_states_def mem_align_alloc_def Let_def unused_clearedD
             split: if_splits)
qed

lemma push_state_data_True:
  assumes "push_state_data w1 = (True, w2)"
  shows "depth (stack w2) = depth (stack w1)" "trace w2 = trace w1" "nodes w2 = nodes w1"
    "lists w2 = lists w1" "length (states (stack w2)) = length (states (stack w1))"
    "callbacks (stack w2) = callbacks (stack w1)"
  using assms
  by (auto simp: push_state_data_def realloc_dom_stack_state_objects_def mem_align_alloc_def
                 mem_realloc_def Let_def
           split: option.splits prod.splits bool.splits list.splits if_splits)

lemma realloc_dom_stack_states_block:
  assumes "realloc_dom_stack_states w = (True, w1)"
  shows "state_objects_block (stack w1) = state_objects_block (stack w)"
  using assms
  by (auto simp: realloc_dom_stack_states_def mem_align_alloc_def mem_realloc_def Let_def
           split: option.splits prod.splits bool.splits list.splits if_splits)

lemma push_state_data_block:
  assumes "push_state_data w1 = (True, w2)"
  shows "state_objects_block (stack w2) =
           (if object_size (stack w1) \<noteq> 0
               \<and> ALIGN_MEMORY_SIZE (depth (stack w1)) < ALIGN_MEMORY_SIZE (depth (stack w1) + 1)
            then Suc (state_objects_block (stack w1))
            else state_objects_block (stack w1))"
  using assms
  by (auto simp: push_state_data_def realloc_dom_stack_state_objects_def mem_align_alloc_def
                 mem_realloc_def Let_def
           split: option.splits prod.splits bool.splits list.splits if_splits)

lemma push_state_data_frame:
  assumes "push_state_data w1 = (True, w2)" and "depth (stack w1) < length (states (stack w1))"
  shows "states (stack w2) ! depth (stack w1) =
           (states (stack w1) ! depth (stack w1))
             \<lparr>data := (if object_size (stack w1) \<noteq> 0
                       then Some (state_objects_block (stack w2),
                                  depth (stack w1) * object_size (stack w1))
                       else data (states (stack w1) ! depth (stack w1)))\<rparr>"
  using assms
  by (auto simp: push_state_data_def realloc_dom_stack_state_objects_def mem_align_alloc_def
                 mem_realloc_def Let_def
           split: option.splits prod.splits bool.splits list.splits if_splits)

lemma push_state_node_simps:
  "depth (stack (push_state_node w n)) = depth (stack w) + 1"
  "states (stack (push_state_node w n)) =
     (states (stack w))[depth (stack w) := (states (stack w) ! depth (stack w))\<lparr>node := n\<rparr>]"
  "trace (push_state_node w n) = trace w @ [Push n]"
  "callbacks (stack (push_state_node w n)) = callbacks (stack w)"
  by (simp_all add: push_state_node_def Let_def)

lemma push_callback_Rejected:
  assumes "push_callback env w i n ty = (Inl Rejected, w')" and "leaves_frames env"
  shows "depth (stack w') = depth (stack w) - 1"
    "states (stack w') = (states (stack w))[i := zero_state]"
    "i < length (states (stack w))"
    "\<exists>cb d. cb \<noteq> NULL \<and> cb = callbacks (stack w) ty \<and> fst (run env cb (stack w) n d) = NULL
            \<and> trace w' = trace w @ [Entry cb n d, Unpush n]"
  using assms
  by (auto simp: push_callback_def Let_def dest!: leaves_framesD
           split: prod.splits if_splits)

lemma push_callback_Inr:
  assumes "push_callback env w i n ty = (Inr r, w')" and "leaves_frames env"
  shows "depth (stack w') = depth (stack w)" "states (stack w') = states (stack w)"
    "callbacks (stack w) ty = NULL \<Longrightarrow> r = n"
    "callbacks (stack w) ty \<noteq> NULL \<Longrightarrow>
       r = fst (run env (callbacks (stack w) ty) (stack w) n (data (states (stack w) ! i)))"
  using assms
  by (auto simp: push_callback_def Let_def dest!: leaves_framesD
           split: prod.splits if_splits)

lemma push_dom_node_reaches_callback:
  assumes "push_dom_node env w n = (res, w')" and "res = Inl Rejected \<or> (\<exists>r. res = Inr r)"
  obtains nd w1 w2 where "deref w n = Some nd" "realloc_dom_stack_states w = (True, w1)"
    "depth (stack w1) < length (states (stack w1))" "push_state_data w1 = (True, w2)"
    "push_callback env (push_state_node w2 n) (depth (stack w)) n (type nd) = (res, w')"
  using assms
  by (auto simp: push_dom_node_def split: option.splits prod.splits bool.splits if_splits)

subsection \<open>The loop of the walk, run for a number of rounds\<close>

lemma walk_loop_rounds:
  "fst (walk_rounds k env w) \<noteq> Inr () \<or> \<not> dom_stack_has_parents (stack (snd (walk_rounds k env w)))
   \<Longrightarrow> walk_loop env w = Some (walk_rounds k env w)"
proof (induction k arbitrary: w)
  case 0
  then show ?case
    by (subst walk_loop.simps) simp
next
  case (Suc k)
  show ?case
  proof (cases "dom_stack_has_parents (stack w)")
    case False
    then show ?thesis
      by (subst walk_loop.simps) simp
  next
    case True
    obtain res w1 where b: "walk_body env w = (res, w1)"
      by (cases "walk_body env w")
    show ?thesis
    proof (cases res)
      case (Inl e)
      with True b show ?thesis
        by (subst walk_loop.simps) simp
    next
      case (Inr u)
      with True b Suc.prems have "fst (walk_rounds k env w1) \<noteq> Inr ()
          \<or> \<not> dom_stack_has_parents (stack (snd (walk_rounds k env w1)))"
        by simp
      then have "walk_loop env w1 = Some (walk_rounds k env w1)"
        by (rule Suc.IH)
      with True b Inr show ?thesis
        by (subst walk_loop.simps) simp
    qed
  qed
qed

lemma walk_dom_nodes_rounds:
  assumes "fst (push_dom_node env w root) \<noteq> Inl Fatal"
    and "fst (walk_rounds k env (snd (push_dom_node env w root))) \<noteq> Inr ()
         \<or> \<not> dom_stack_has_parents (stack (snd (walk_rounds k env (snd (push_dom_node env w root)))))"
  shows "walk_dom_nodes env w root = Some (walk_rounds k env (snd (push_dom_node env w root)))"
  using assms(1) walk_loop_rounds [OF assms(2)]
  by (auto simp: walk_dom_nodes_def split: prod.splits sum.splits error.splits)

subsection \<open>Failed allocation\<close>

text \<open>
  C3. A push of a valid node within the depth limit in which growing the frame array
  fails (\<^verbatim>\<open>realloc_dom_stack_states\<close> returns NULL), or in which the frame array is
  grown and growing the payload array fails (\<^verbatim>\<open>realloc_dom_stack_state_objects\<close>
  returns NULL, with a payload size that is not 0), ends with \<open>OutOfMemory\<close>; the one
  thing that it adds to the history is the call of \<^verbatim>\<open>done_dom_node\<close> on the node, and
  the depth is as before.
\<close>

theorem push_dom_node_out_of_memory:
  assumes "deref w n \<noteq> None"
    and "depth (stack w) \<le> DOM_STACK_MAX_DEPTH env"
    and "\<not> fst (realloc_dom_stack_states w)
         \<or> (fst (realloc_dom_stack_states w)
            \<and> depth (stack w) < length (states (stack (snd (realloc_dom_stack_states w))))
            \<and> object_size (stack w) \<noteq> 0
            \<and> \<not> fst (realloc_dom_stack_state_objects (snd (realloc_dom_stack_states w))))"
  shows "fst (push_dom_node env w n) = Inl OutOfMemory
         \<and> trace (snd (push_dom_node env w n)) = trace w @ [Destroy n]
         \<and> depth (stack (snd (push_dom_node env w n))) = depth (stack w)"
proof -
  obtain nd where v: "deref w n = Some nd"
    using assms(1) by auto
  obtain b w1 where r: "realloc_dom_stack_states w = (b, w1)"
    by (cases "realloc_dom_stack_states w")
  show ?thesis
  proof (cases b)
    case False
    with r have "push_dom_node env w n = (Inl OutOfMemory, done_dom_node n w1)"
      using v assms(2) by (simp add: push_dom_node_def)
    with realloc_dom_stack_states_False [of w w1] r False show ?thesis
      by (simp add: done_dom_node_def)
  next
    case True
    with r have rt: "realloc_dom_stack_states w = (True, w1)"
      by simp
    note r' = realloc_dom_stack_states_True [OF rt]
    from True r assms(3) have inside: "depth (stack w1) < length (states (stack w1))"
      and osize: "object_size (stack w1) \<noteq> 0"
      and fails: "\<not> fst (realloc_dom_stack_state_objects w1)"
      using r' by simp_all
    obtain w2 where o: "realloc_dom_stack_state_objects w1 = (False, w2)"
      using fails by (cases "realloc_dom_stack_state_objects w1") simp
    then have "push_state_data w1 = (False, w2)"
      using osize by (simp add: push_state_data_def)
    with r True inside have "push_dom_node env w n = (Inl OutOfMemory, done_dom_node n w2)"
      using v assms(2) by (simp add: push_dom_node_def)
    with realloc_dom_stack_state_objects_False [OF o] r' show ?thesis
      by (simp add: done_dom_node_def)
  qed
qed

theorem push_dom_node_out_of_memory_witness:
  "fst (push_dom_node env_accept (fresh_world 4 tree_nodes tree_lists [True, False]) 1) = Inl OutOfMemory
   \<and> trace (snd (push_dom_node env_accept (fresh_world 4 tree_nodes tree_lists [True, False]) 1)) = [Destroy 1]
   \<and> fst (push_dom_node env_accept (fresh_world 0 tree_nodes tree_lists [False]) 1) = Inl OutOfMemory
   \<and> trace (snd (push_dom_node env_accept (fresh_world 0 tree_nodes tree_lists [False]) 1)) = [Destroy 1]"
proof -
  let ?p = "fresh_world 4 tree_nodes tree_lists [True, False]"
  let ?f = "fresh_world 0 tree_nodes tree_lists [False]"
  have "deref ?p 1 \<noteq> None" "depth (stack ?p) \<le> DOM_STACK_MAX_DEPTH env_accept"
    "\<not> fst (realloc_dom_stack_states ?p)
         \<or> (fst (realloc_dom_stack_states ?p)
            \<and> depth (stack ?p) < length (states (stack (snd (realloc_dom_stack_states ?p))))
            \<and> object_size (stack ?p) \<noteq> 0
            \<and> \<not> fst (realloc_dom_stack_state_objects (snd (realloc_dom_stack_states ?p))))"
    by code_simp+
  note payload = push_dom_node_out_of_memory [OF this]
  have "deref ?f 1 \<noteq> None" "depth (stack ?f) \<le> DOM_STACK_MAX_DEPTH env_accept"
    "\<not> fst (realloc_dom_stack_states ?f)
         \<or> (fst (realloc_dom_stack_states ?f)
            \<and> depth (stack ?f) < length (states (stack (snd (realloc_dom_stack_states ?f))))
            \<and> object_size (stack ?f) \<noteq> 0
            \<and> \<not> fst (realloc_dom_stack_state_objects (snd (realloc_dom_stack_states ?f))))"
    by code_simp+
  note frames = push_dom_node_out_of_memory [OF this]
  have "trace ?p = []" "trace ?f = []"
    by (simp_all add: fresh_world_def)
  with payload frames show ?thesis
    by simp
qed

subsection \<open>Rejection by the entry callback\<close>

lemma push_callback_rejects:
  assumes "push_callback env w i n ty = (res, w')"
    and "callbacks (stack w) ty \<noteq> NULL"
    and "\<forall>s d. fst (run env (callbacks (stack w) ty) s n d) = NULL"
  shows "res = Inl Rejected \<or> res = Inl Fatal"
proof -
  have "fst (run env (callbacks (stack w) ty) (stack w) n (data (states (stack w) ! i))) = NULL"
    using assms(3) by blast
  with assms(1,2) show ?thesis
    by (auto simp: push_callback_def Let_def split: prod.splits if_splits)
qed

text \<open>
  C2. A push of the node \<open>n\<close> that gets as far as the entry callback (it does not
  end at the depth limit, for lack of memory or in a fault), where the callback registered
  for the kind of \<open>n\<close> returns NULL for \<open>n\<close>, ends with \<open>Rejected\<close>: the depth is
  back at its value before the push, the frame that was set up is cleared, and what the push
  adds to the history is the opening of the frame, the call of the callback and the
  clearing; there is no call of \<^verbatim>\<open>done_dom_node\<close>. (The callbacks leave the frame array
  and the depth as they found them.)
\<close>

theorem push_dom_node_rejected:
  assumes push: "push_dom_node env w n = (res, w')"
    and reached: "res \<noteq> Inl Fatal" "res \<noteq> Inl DepthExceeded" "res \<noteq> Inl OutOfMemory"
    and valid: "deref w n = Some nd"
    and registered: "callbacks (stack w) (type nd) \<noteq> NULL"
    and rejects: "\<forall>s d. fst (run env (callbacks (stack w) (type nd)) s n d) = NULL"
    and lf: "leaves_frames env"
  shows "res = Inl Rejected
         \<and> depth (stack w') = depth (stack w)
         \<and> state_at (stack w') (int (depth (stack w))) = Some zero_state
         \<and> (\<exists>d. trace w' = trace w @ [Push n, Entry (callbacks (stack w) (type nd)) n d, Unpush n])"
proof -
  from reached have "res = Inl Rejected \<or> (\<exists>r. res = Inr r)"
    by (cases res) (auto intro: error.exhaust)
  with push obtain nd' w1 w2 where
    v: "deref w n = Some nd'"
    and r: "realloc_dom_stack_states w = (True, w1)"
    and inside: "depth (stack w1) < length (states (stack w1))"
    and p: "push_state_data w1 = (True, w2)"
    and c: "push_callback env (push_state_node w2 n) (depth (stack w)) n (type nd') = (res, w')"
    by (rule push_dom_node_reaches_callback)
  note r' = realloc_dom_stack_states_True [OF r]
  note p' = push_state_data_True [OF p]
  have nd: "nd' = nd"
    using v valid by simp
  have cb: "callbacks (stack (push_state_node w2 n)) (type nd') = callbacks (stack w) (type nd)"
    using r'(6) p'(6) nd by (simp add: push_state_node_simps)
  have res: "res = Inl Rejected"
    using push_callback_rejects [OF c] cb registered rejects reached(1) by auto
  note c' = push_callback_Rejected [OF c [unfolded res] lf]
  have "depth (stack w') = depth (stack w)"
    using c'(1) r'(1) p'(1) by (simp add: push_state_node_simps)
  moreover have "state_at (stack w') (int (depth (stack w))) = Some zero_state"
    using c'(2) inside r'(1) p'(1) p'(5) by (simp add: state_at_def push_state_node_simps)
  moreover have "\<exists>d. trace w' = trace w @ [Push n, Entry (callbacks (stack w) (type nd)) n d, Unpush n]"
    using c'(4) r'(2) p'(2) cb by (auto simp: push_state_node_simps)
  ultimately show ?thesis
    using res by simp
qed

theorem push_dom_node_rejected_witness:
  "fst (push_dom_node env_reject_span two_open 3) = Inl Rejected
   \<and> map_option type (deref two_open 3) = Some DOM_NODE_ELEMENT
   \<and> callbacks (stack two_open) DOM_NODE_ELEMENT = 1
   \<and> (\<forall>s d. fst (run env_reject_span 1 s 3 d) = NULL)
   \<and> leaves_frames env_reject_span
   \<and> depth (stack two_open) = 2
   \<and> depth (stack (snd (push_dom_node env_reject_span two_open 3))) = 2
   \<and> state_at (stack (snd (push_dom_node env_reject_span two_open 3))) 2 = Some zero_state
   \<and> trace (snd (push_dom_node env_reject_span two_open 3))
       = trace two_open @ [Push 3, Entry 1 3 None, Unpush 3]"
proof -
  let ?w' = "snd (push_dom_node env_reject_span two_open 3)"
  let ?nd = "(leaf DOM_NODE_ELEMENT ''span'')\<lparr>element_children := 12\<rparr>"
  have res: "fst (push_dom_node env_reject_span two_open 3) = Inl Rejected"
    by code_simp
  then have p: "push_dom_node env_reject_span two_open 3 = (Inl Rejected, ?w')"
    by (metis prod.collapse)
  have v: "deref two_open 3 = Some ?nd"
    by code_simp
  have ty: "type ?nd = DOM_NODE_ELEMENT"
    by (simp add: leaf_def)
  have cb: "callbacks (stack two_open) DOM_NODE_ELEMENT = 1"
    by code_simp
  have a: "\<forall>s d. fst (run env_reject_span 1 s 3 d) = NULL"
    by (simp add: env_reject_span_def reject_node_def)
  have "callbacks (stack two_open) (type ?nd) \<noteq> NULL"
    "\<forall>s d. fst (run env_reject_span (callbacks (stack two_open) (type ?nd)) s 3 d) = NULL"
    using ty cb a by simp_all
  note rejected = push_dom_node_rejected [OF p _ _ _ v this leaves_frames_reject_span]
  have d: "depth (stack two_open) = 2"
    by code_simp
  have t: "trace ?w' = trace two_open @ [Push 3, Entry 1 3 None, Unpush 3]"
    by code_simp
  from rejected res d t v ty cb a leaves_frames_reject_span show ?thesis
    by simp
qed

subsection \<open>The exit callback of a new frame\<close>

text \<open>
  C1, as the claim states it, fails: with the callback at address 1 registered for
  elements, pushing "span" succeeds and the exit-callback field of the new top frame is
  NULL, not 1; popping the frame calls no callback.
\<close>

theorem push_exit_callback_counterexample:
  "callbacks (stack two_open) DOM_NODE_ELEMENT = 1
   \<and> fst (push_dom_node env_accept two_open 3) = Inr 3
   \<and> map_option callback
        (state_at (stack (snd (push_dom_node env_accept two_open 3)))
           (get_dom_stack_top (stack (snd (push_dom_node env_accept two_open 3))))) = Some NULL
   \<and> trace (snd (pop_dom_node env_accept (snd (push_dom_node env_accept two_open 3))))
       = trace two_open @ [Push 3, Entry 1 3 None, Pop 3]"
  by code_simp

text \<open>
  C1, amended. \<^verbatim>\<open>push_dom_node\<close> never writes \<^verbatim>\<open>state->callback\<close>. After a push
  that succeeds, on a stack whose unused frame slots are cleared and with callbacks that
  leave the frame array and the depth as they found them, the depth is one more and the
  top frame is the cleared frame with the node set and, when a payload size is configured,
  the payload pointer set to the block of the frame in the payload array as the push left
  it: its list is unset, its index is 0 and its exit callback is
  unset, whether or not an entry callback is registered for the kind of the node.
\<close>

theorem push_dom_node_exit_callback_unset:
  assumes "push_dom_node env w n = (Inr r, w')"
    and "leaves_frames env"
    and "unused_cleared (stack w)"
  shows "depth (stack w') = depth (stack w) + 1
         \<and> state_at (stack w') (get_dom_stack_top (stack w')) =
             Some (zero_state\<lparr>node := n,
                               data := (if object_size (stack w) \<noteq> 0
                                        then Some (if ALIGN_MEMORY_SIZE (depth (stack w))
                                                        < ALIGN_MEMORY_SIZE (depth (stack w) + 1)
                                                   then Suc (state_objects_block (stack w))
                                                   else state_objects_block (stack w),
                                                   depth (stack w) * object_size (stack w))
                                        else None)\<rparr>)"
proof -
  from assms(1) obtain nd w1 w2 where
    v: "deref w n = Some nd"
    and r: "realloc_dom_stack_states w = (True, w1)"
    and inside: "depth (stack w1) < length (states (stack w1))"
    and p: "push_state_data w1 = (True, w2)"
    and c: "push_callback env (push_state_node w2 n) (depth (stack w)) n (type nd) = (Inr r, w')"
    by (rule push_dom_node_reaches_callback) simp
  note r' = realloc_dom_stack_states_True [OF r]
  note p' = push_state_data_True [OF p]
  note c' = push_callback_Inr [OF c assms(2)]
  have z: "states (stack w1) ! depth (stack w) = zero_state"
    using r assms(3) inside r'(1) by (simp add: realloc_dom_stack_states_frame)
  have b: "state_objects_block (stack w2) =
             (if object_size (stack w) \<noteq> 0
                 \<and> ALIGN_MEMORY_SIZE (depth (stack w)) < ALIGN_MEMORY_SIZE (depth (stack w) + 1)
              then Suc (state_objects_block (stack w))
              else state_objects_block (stack w))"
    using push_state_data_block [OF p] realloc_dom_stack_states_block [OF r] r'(1) r'(5)
    by simp
  have f: "states (stack w2) ! depth (stack w) =
             zero_state\<lparr>data := (if object_size (stack w) \<noteq> 0
                                  then Some (if ALIGN_MEMORY_SIZE (depth (stack w))
                                                  < ALIGN_MEMORY_SIZE (depth (stack w) + 1)
                                             then Suc (state_objects_block (stack w))
                                             else state_objects_block (stack w),
                                             depth (stack w) * object_size (stack w))
                                  else None)\<rparr>"
    using push_state_data_frame [OF p inside] z r'(1) r'(5) b by (simp add: zero_state_def)
  have d: "depth (stack w') = depth (stack w) + 1"
    using c'(1) r'(1) p'(1) by (simp add: push_state_node_simps)
  have "state_at (stack w') (get_dom_stack_top (stack w')) =
          Some ((states (stack w2) ! depth (stack w))\<lparr>node := n\<rparr>)"
    using d c'(2) inside r'(1) p'(1) p'(5)
    by (simp add: state_at_def get_dom_stack_top_def push_state_node_simps)
  with d f show ?thesis by (simp add: zero_state_def)
qed

theorem push_dom_node_exit_callback_unset_witness:
  "fst (push_dom_node env_accept two_open 3) = Inr 3
   \<and> leaves_frames env_accept
   \<and> unused_cleared (stack two_open)
   \<and> depth (stack (snd (push_dom_node env_accept two_open 3))) = 3
   \<and> map_option callback
        (state_at (stack (snd (push_dom_node env_accept two_open 3)))
           (get_dom_stack_top (stack (snd (push_dom_node env_accept two_open 3))))) = Some NULL"
proof -
  let ?w' = "snd (push_dom_node env_accept two_open 3)"
  have res: "fst (push_dom_node env_accept two_open 3) = Inr 3"
    by code_simp
  then have p: "push_dom_node env_accept two_open 3 = (Inr 3, ?w')"
    by (metis prod.collapse)
  have u: "unused_cleared (stack two_open)"
    by code_simp
  have d: "depth (stack two_open) = 2"
    by code_simp
  from push_dom_node_exit_callback_unset [OF p leaves_frames_accept u] d res u
    leaves_frames_accept
  show ?thesis
    by (simp add: zero_state_def)
qed

subsection \<open>An entry callback that returns another node\<close>

text \<open>
  C6, as the claim states it, fails: with Document open and a callback that answers "p"
  (7) for "div" (2), pushing "div" returns 7, but the node of the top frame is 2; the walk
  of the document goes on into "span" and the text "x", the children of "div", and never
  pushes the text "y" (8), the child of "p".
\<close>

theorem push_substitute_counterexample:
  "fst (push_dom_node env_substitute spare_open 2) = Inr 7
   \<and> map_option node
        (state_at (stack (snd (push_dom_node env_substitute spare_open 2)))
           (get_dom_stack_top (stack (snd (push_dom_node env_substitute spare_open 2))))) = Some 2
   \<and> map_option (\<lambda>(r, w). (r, trace w))
        (walk_dom_nodes env_substitute (fresh_world 0 spare_nodes spare_lists []) 1)
       = Some (Inr (), [Push 1, Entry 1 1 None, Push 2, Entry 1 2 None, Push 3, Entry 1 3 None,
                        Push 4, Entry 1 4 None, Pop 4, Pop 3, Pop 2, Pop 1])"
proof -
  let ?w = "fresh_world 0 spare_nodes spare_lists []"
  have "fst (push_dom_node env_substitute ?w 1) \<noteq> Inl Fatal"
    "fst (walk_rounds 7 env_substitute (snd (push_dom_node env_substitute ?w 1))) \<noteq> Inr ()
     \<or> \<not> dom_stack_has_parents
           (stack (snd (walk_rounds 7 env_substitute (snd (push_dom_node env_substitute ?w 1)))))"
    by code_simp+
  then have "walk_dom_nodes env_substitute ?w 1
               = Some (walk_rounds 7 env_substitute (snd (push_dom_node env_substitute ?w 1)))"
    by (rule walk_dom_nodes_rounds)
  moreover have "(\<lambda>(r, w). (r, trace w))
                   (walk_rounds 7 env_substitute (snd (push_dom_node env_substitute ?w 1)))
     = (Inr (), [Push 1, Entry 1 1 None, Push 2, Entry 1 2 None, Push 3, Entry 1 3 None,
                        Push 4, Entry 1 4 None, Pop 4, Pop 3, Pop 2, Pop 1])"
    by code_simp
  moreover have "fst (push_dom_node env_substitute spare_open 2) = Inr 7"
    by code_simp
  moreover have "map_option node
        (state_at (stack (snd (push_dom_node env_substitute spare_open 2)))
           (get_dom_stack_top (stack (snd (push_dom_node env_substitute spare_open 2))))) = Some 2"
    by code_simp
  ultimately show ?thesis
    by simp
qed

text \<open>
  C6, amended. When the entry callback registered for the kind of the node \<open>n\<close>
  answers \<open>m\<close> for \<open>n\<close>, a push of \<open>n\<close> that succeeds returns \<open>m\<close>; the node
  of the new top frame is the node \<open>n\<close> that was pushed (with callbacks that leave the
  frame array and the depth as they found them), so that it is the lists of \<open>n\<close> that
  the walk goes through.
\<close>

theorem push_dom_node_substitute:
  assumes "push_dom_node env w n = (Inr r, w')"
    and "leaves_frames env"
    and "deref w n = Some nd"
    and "callbacks (stack w) (type nd) \<noteq> NULL"
    and "\<forall>s d. fst (run env (callbacks (stack w) (type nd)) s n d) = m"
  shows "r = m
         \<and> map_option node (state_at (stack w') (get_dom_stack_top (stack w'))) = Some n"
proof -
  from assms(1) obtain nd' w1 w2 where
    v: "deref w n = Some nd'"
    and r: "realloc_dom_stack_states w = (True, w1)"
    and inside: "depth (stack w1) < length (states (stack w1))"
    and p: "push_state_data w1 = (True, w2)"
    and c: "push_callback env (push_state_node w2 n) (depth (stack w)) n (type nd') = (Inr r, w')"
    by (rule push_dom_node_reaches_callback) simp
  note r' = realloc_dom_stack_states_True [OF r]
  note p' = push_state_data_True [OF p]
  note c' = push_callback_Inr [OF c assms(2)]
  have nd: "nd' = nd"
    using v assms(3) by simp
  have cb: "callbacks (stack (push_state_node w2 n)) (type nd') = callbacks (stack w) (type nd)"
    using r'(6) p'(6) nd by (simp add: push_state_node_simps)
  have "r = m"
    using c'(4) cb assms(4) assms(5) by auto
  moreover have "map_option node (state_at (stack w') (get_dom_stack_top (stack w'))) = Some n"
    using c'(1) c'(2) inside r'(1) p'(1) p'(5)
    by (simp add: state_at_def get_dom_stack_top_def push_state_node_simps)
  ultimately show ?thesis by simp
qed

theorem push_dom_node_substitute_witness:
  "fst (push_dom_node env_substitute spare_open 2) = Inr 7
   \<and> leaves_frames env_substitute
   \<and> map_option type (deref spare_open 2) = Some DOM_NODE_ELEMENT
   \<and> callbacks (stack spare_open) DOM_NODE_ELEMENT = 1
   \<and> (\<forall>s d. fst (run env_substitute 1 s 2 d) = 7)
   \<and> map_option node
        (state_at (stack (snd (push_dom_node env_substitute spare_open 2)))
           (get_dom_stack_top (stack (snd (push_dom_node env_substitute spare_open 2))))) = Some 2"
proof -
  let ?w' = "snd (push_dom_node env_substitute spare_open 2)"
  let ?nd = "(leaf DOM_NODE_ELEMENT ''div'')\<lparr>element_children := 11\<rparr>"
  have res: "fst (push_dom_node env_substitute spare_open 2) = Inr 7"
    by code_simp
  then have p: "push_dom_node env_substitute spare_open 2 = (Inr 7, ?w')"
    by (metis prod.collapse)
  have v: "deref spare_open 2 = Some ?nd"
    by code_simp
  have ty: "type ?nd = DOM_NODE_ELEMENT"
    by (simp add: leaf_def)
  have cb: "callbacks (stack spare_open) DOM_NODE_ELEMENT = 1"
    by code_simp
  have a: "\<forall>s d. fst (run env_substitute 1 s 2 d) = 7"
    by (simp add: env_substitute_def substitute_def)
  have "callbacks (stack spare_open) (type ?nd) \<noteq> NULL"
    "\<forall>s d. fst (run env_substitute (callbacks (stack spare_open) (type ?nd)) s 2 d) = 7"
    using ty cb a by simp_all
  from push_dom_node_substitute [OF p leaves_frames_substitute v this] res
    leaves_frames_substitute v ty cb a
  show ?thesis
    by simp
qed

subsection \<open>The steps of a pop and of an unwind\<close>

lemma leaves_frames_reject_id: "leaves_frames env_reject_id"
  by (simp add: leaves_frames_def env_reject_id_def reject_node_def)

lemma nat_int_pred: "nat (int d - 1) = d - 1"
  by arith

lemma unwind_events_Cons:
  "unwind_events ctx (f # fs) = unwind_events ctx [f] @ unwind_events ctx fs"
  by (simp add: unwind_events_def)

lemma do_pop_dom_node_step:
  assumes lf: "leaves_frames env"
    and open_frame: "0 < depth (stack w)"
    and inside: "depth (stack w) \<le> length (states (stack w))"
    and target: "callback (states (stack w) ! (depth (stack w) - 1)) \<noteq> NULL
                 \<Longrightarrow> state_at (stack w) parent = Some p"
  shows "\<exists>w'. do_pop_dom_node env w parent = (Inr (int (depth (stack w)) - 1 = parent), w')
           \<and> depth (stack w') = depth (stack w) - 1
           \<and> states (stack w') = (states (stack w))[depth (stack w) - 1 := zero_state]
           \<and> trace w' = trace w
                @ unwind_events (node p) [states (stack w) ! (depth (stack w) - 1)]"
proof -
  let ?f = "states (stack w) ! (depth (stack w) - 1)"
  have top: "state_at (stack w) (get_dom_stack_top (stack w)) = Some ?f"
    using open_frame inside by (simp add: state_at_def get_dom_stack_top_def nat_diff_distrib)
  have st: "\<And>c s n d. states (snd (run env c s n d)) = states s"
    and dp: "\<And>c s n d. depth (snd (run env c s n d)) = depth s"
    using lf by (simp_all add: leaves_frames_def)
  have nt: "nat (get_dom_stack_top (stack w)) = depth (stack w) - 1"
    by (simp add: get_dom_stack_top_def nat_diff_distrib)
  show ?thesis
  proof (cases "callback ?f = NULL")
    case True
    then have "pop_callback env w ?f parent = Some w"
      by (simp add: pop_callback_def)
    with top open_frame nt True show ?thesis
      by (simp add: do_pop_dom_node_def dom_stack_has_parents_def Let_def unwind_events_def
                    get_dom_stack_top_def)
  next
    case False
    let ?w1 = "w\<lparr>stack := snd (run env (callback ?f) (stack w) (node p) (data ?f)),
                    trace := trace w @ [Exit (callback ?f) (node p) (data ?f)]\<rparr>"
    have cb: "pop_callback env w ?f parent = Some ?w1"
      using False target by (simp add: pop_callback_def)
    have top1: "state_at (stack ?w1) (get_dom_stack_top (stack w)) = Some ?f"
      using top by (simp add: state_at_def st split: if_splits)
    from top open_frame nt cb top1 False show ?thesis
      by (simp add: do_pop_dom_node_def dom_stack_has_parents_def Let_def unwind_events_def
                    st dp get_dom_stack_top_def)
  qed
qed

lemma search_below_Some:
  "search_below w ty str k = Some t \<Longrightarrow>
     0 \<le> t \<and> t < int k \<and> state_matches w ty str t
     \<and> (\<forall>j. t < j \<and> j < int k \<longrightarrow> \<not> state_matches w ty str j)"
proof (induction k)
  case 0
  then show ?case by simp
next
  case (Suc k)
  show ?case
  proof (cases "state_matches w ty str (int k)")
    case True
    with Suc.prems show ?thesis by auto
  next
    case False
    with Suc.prems have "search_below w ty str k = Some t" by simp
    from Suc.IH [OF this] have ih: "0 \<le> t" "t < int k" "state_matches w ty str t"
      "\<And>j. t < j \<Longrightarrow> j < int k \<Longrightarrow> \<not> state_matches w ty str j"
      by auto
    have "\<not> state_matches w ty str j" if "t < j" "j < int (Suc k)" for j
      using that ih(4) [of j] False by (cases "j = int k") auto
    with ih show ?thesis
      by auto
  qed
qed

lemma search_below_None:
  "search_below w ty str k = None \<Longrightarrow> 0 \<le> j \<Longrightarrow> j < int k \<Longrightarrow> \<not> state_matches w ty str j"
proof (induction k)
  case 0
  then show ?case by simp
next
  case (Suc k)
  then show ?case
    by (cases "j = int k") (auto split: if_splits)
qed

lemma drop_take_last:
  assumes "t < d" and "d \<le> length xs"
  shows "rev (drop t (take d xs)) = xs ! (d - 1) # rev (drop t (take (d - 1) xs))"
proof -
  from assms have "take d xs = take (d - 1) xs @ [xs ! (d - 1)]"
    by (metis Suc_diff_1 Suc_le_lessD gr_implies_not0 not_gr_zero take_Suc_conv_app_nth)
  with assms show ?thesis by simp
qed

lemma pop_dom_nodes_loop_unwinds:
  assumes lf: "leaves_frames env"
  shows "nat t < depth (stack w) \<Longrightarrow> 0 \<le> t \<Longrightarrow> depth (stack w) \<le> length (states (stack w))
     \<Longrightarrow> depth (stack w) - nat t \<le> k
     \<Longrightarrow> \<exists>w'. pop_dom_nodes_loop env t k w = (Inr (), w')
            \<and> depth (stack w') = nat t
            \<and> take (nat t) (states (stack w')) = take (nat t) (states (stack w))
            \<and> trace w' = trace w
                 @ unwind_events (node (states (stack w) ! nat t))
                     (rev (drop (nat t) (take (depth (stack w)) (states (stack w)))))"
proof (induction k arbitrary: w)
  case 0
  then show ?case by simp
next
  case (Suc k)
  let ?d = "depth (stack w)"
  let ?xs = "states (stack w)"
  have target: "state_at (stack w) t = Some (?xs ! nat t)"
    using Suc.prems by (simp add: state_at_def)
  from do_pop_dom_node_step [where parent = t and p = "?xs ! nat t", OF lf _ Suc.prems(3)]
    target Suc.prems(1)
  obtain w1 where
    pop: "do_pop_dom_node env w t = (Inr (int ?d - 1 = t), w1)"
    and d1: "depth (stack w1) = ?d - 1"
    and s1: "states (stack w1) = ?xs[?d - 1 := zero_state]"
    and t1: "trace w1 = trace w @ unwind_events (node (?xs ! nat t)) [?xs ! (?d - 1)]"
    by auto
  have split: "rev (drop (nat t) (take ?d ?xs)) = ?xs ! (?d - 1) # rev (drop (nat t) (take (?d - 1) ?xs))"
    using Suc.prems by (simp add: drop_take_last)
  show ?case
  proof (cases "int ?d - 1 = t")
    case True
    then have nt: "nat t = ?d - 1"
      by simp
    with pop d1 s1 t1 True split show ?thesis
      by simp
  next
    case False
    with Suc.prems have below: "nat t < ?d - 1"
      by auto
    have "\<exists>w'. pop_dom_nodes_loop env t k w1 = (Inr (), w')
            \<and> depth (stack w') = nat t
            \<and> take (nat t) (states (stack w')) = take (nat t) (states (stack w1))
            \<and> trace w' = trace w1
                 @ unwind_events (node (states (stack w1) ! nat t))
                     (rev (drop (nat t) (take (depth (stack w1)) (states (stack w1)))))"
      using below Suc.prems d1 s1 by (intro Suc.IH) simp_all
    then obtain w' where
      loop: "pop_dom_nodes_loop env t k w1 = (Inr (), w')"
      and d': "depth (stack w') = nat t"
      and s': "take (nat t) (states (stack w')) = take (nat t) (states (stack w1))"
      and t': "trace w' = trace w1
                 @ unwind_events (node (states (stack w1) ! nat t))
                     (rev (drop (nat t) (take (depth (stack w1)) (states (stack w1)))))"
      by blast
    have same_target: "states (stack w1) ! nat t = ?xs ! nat t"
      using below s1 by simp
    have same_rest: "take (depth (stack w1)) (states (stack w1)) = take (?d - 1) ?xs"
      using d1 s1 by simp
    have events: "unwind_events (node (?xs ! nat t)) (rev (drop (nat t) (take ?d ?xs)))
        = unwind_events (node (?xs ! nat t)) [?xs ! (?d - 1)]
          @ unwind_events (node (?xs ! nat t)) (rev (drop (nat t) (take (?d - 1) ?xs)))"
      by (subst split) (rule unwind_events_Cons)
    have "trace w' = trace w @ unwind_events (node (?xs ! nat t)) (rev (drop (nat t) (take ?d ?xs)))"
      using t' t1 same_target same_rest events by simp
    moreover have "take (nat t) (states (stack w')) = take (nat t) ?xs"
      using s' s1 below by simp
    moreover have "pop_dom_nodes_loop env t (Suc k) w = (Inr (), w')"
      using pop False loop by simp
    ultimately show ?thesis
      using d' by simp
  qed
qed

subsection \<open>The node that an exit callback is given\<close>




subsection \<open>Unwinding to an ancestor\<close>

text \<open>
  C8. \<^verbatim>\<open>search_dom_stack\<close> and the iterator of the loop are modelled from the spec.
  With callbacks that leave the frame array and the depth as they found them: if no frame
  matches the kind and the name, the search finds nothing and \<^verbatim>\<open>pop_dom_nodes\<close> leaves
  everything as it was. Otherwise the search finds the matching frame nearest to the top, at
  a position \<open>t\<close>; the frames from the top down to and with that frame are popped in
  this order, each exit callback that is set is called with the node of the target frame,
  the final depth is \<open>t\<close>, the depth at which the target frame was pushed, and the
  frames below are as they were.
\<close>

theorem pop_dom_nodes_unwinds:
  assumes "leaves_frames env"
    and "depth (stack w) \<le> length (states (stack w))"
  shows "case search_dom_stack w ty str of
           None \<Rightarrow>
             (\<forall>j. 0 \<le> j \<and> j < int (depth (stack w)) \<longrightarrow> \<not> state_matches w ty str j)
             \<and> pop_dom_nodes env w ty str = (Inr (), w)
         | Some t \<Rightarrow>
             0 \<le> t \<and> t < int (depth (stack w)) \<and> state_matches w ty str t
             \<and> (\<forall>j. t < j \<and> j < int (depth (stack w)) \<longrightarrow> \<not> state_matches w ty str j)
             \<and> fst (pop_dom_nodes env w ty str) = Inr ()
             \<and> depth (stack (snd (pop_dom_nodes env w ty str))) = nat t
             \<and> take (nat t) (states (stack (snd (pop_dom_nodes env w ty str))))
                 = take (nat t) (states (stack w))
             \<and> trace (snd (pop_dom_nodes env w ty str))
                 = trace w
                   @ unwind_events (node (states (stack w) ! nat t))
                       (rev (drop (nat t) (take (depth (stack w)) (states (stack w)))))"
proof (cases "search_dom_stack w ty str")
  case None
  then have "\<not> state_matches w ty str j" if "0 \<le> j" "j < int (depth (stack w))" for j
    using that search_below_None [of w ty str "depth (stack w)" j]
    by (simp add: search_dom_stack_def)
  moreover have "pop_dom_nodes env w ty str = (Inr (), w)"
    using None by (simp add: pop_dom_nodes_def)
  ultimately show ?thesis
    using None by simp
next
  case (Some t)
  then have found: "search_below w ty str (depth (stack w)) = Some t"
    by (simp add: search_dom_stack_def)
  note s = search_below_Some [OF found]
  from s have below: "nat t < depth (stack w)" and nonneg: "0 \<le> t"
    by auto
  from pop_dom_nodes_loop_unwinds [OF assms(1) below nonneg assms(2), of "depth (stack w)"]
  obtain w' where loop: "pop_dom_nodes_loop env t (depth (stack w)) w = (Inr (), w')"
    and d: "depth (stack w') = nat t"
    and fs: "take (nat t) (states (stack w')) = take (nat t) (states (stack w))"
    and tr: "trace w' = trace w
                 @ unwind_events (node (states (stack w) ! nat t))
                     (rev (drop (nat t) (take (depth (stack w)) (states (stack w)))))"
    by auto
  have "pop_dom_nodes env w ty str = (Inr (), w')"
    using Some loop below by (simp add: pop_dom_nodes_def dom_stack_has_parents_def)
  with s d fs tr Some show ?thesis
    by simp
qed

theorem pop_dom_nodes_unwinds_witness:
  "leaves_frames env_accept
   \<and> depth (stack open_world) \<le> length (states (stack open_world))
   \<and> search_dom_stack open_world DOM_NODE_ELEMENT ''div'' = Some 1
   \<and> fst (pop_dom_nodes env_accept open_world DOM_NODE_ELEMENT ''div'') = Inr ()
   \<and> depth (stack (snd (pop_dom_nodes env_accept open_world DOM_NODE_ELEMENT ''div''))) = 1
   \<and> trace (snd (pop_dom_nodes env_accept open_world DOM_NODE_ELEMENT ''div''))
       = [Exit 9 2 None, Pop 3, Exit 9 2 None, Pop 2]
   \<and> search_dom_stack open_world DOM_NODE_ELEMENT ''table'' = None
   \<and> pop_dom_nodes env_accept open_world DOM_NODE_ELEMENT ''table'' = (Inr (), open_world)"
proof -
  have inside: "depth (stack open_world) \<le> length (states (stack open_world))"
    by code_simp
  have found: "search_dom_stack open_world DOM_NODE_ELEMENT ''div'' = Some 1"
    by code_simp
  have missing: "search_dom_stack open_world DOM_NODE_ELEMENT ''table'' = None"
    by code_simp
  have events: "trace open_world
      @ unwind_events (node (states (stack open_world) ! nat 1))
          (rev (drop (nat 1) (take (depth (stack open_world)) (states (stack open_world)))))
      = [Exit 9 2 None, Pop 3, Exit 9 2 None, Pop 2]"
    by code_simp
  from pop_dom_nodes_unwinds [OF leaves_frames_accept inside, of DOM_NODE_ELEMENT "''div''"]
  have "fst (pop_dom_nodes env_accept open_world DOM_NODE_ELEMENT ''div'') = Inr ()
     \<and> depth (stack (snd (pop_dom_nodes env_accept open_world DOM_NODE_ELEMENT ''div''))) = nat 1
     \<and> trace (snd (pop_dom_nodes env_accept open_world DOM_NODE_ELEMENT ''div''))
       = trace open_world
      @ unwind_events (node (states (stack open_world) ! nat 1))
          (rev (drop (nat 1) (take (depth (stack open_world)) (states (stack open_world)))))"
    unfolding found option.case by blast
  moreover
  from pop_dom_nodes_unwinds [OF leaves_frames_accept inside, of DOM_NODE_ELEMENT "''table''"]
  have "pop_dom_nodes env_accept open_world DOM_NODE_ELEMENT ''table'' = (Inr (), open_world)"
    unfolding missing option.case by blast
  ultimately show ?thesis
    using leaves_frames_accept inside found missing events by simp
qed

subsection \<open>The walk of Document, "div", "span", Text\<close>


subsection \<open>A child that cannot be pushed\<close>

lemma realloc_dom_stack_states_False_stack:
  assumes "realloc_dom_stack_states w = (False, w1)"
  shows "stack w1 = stack w"
  using assms
  by (auto simp: realloc_dom_stack_states_def mem_align_alloc_def mem_realloc_def Let_def
           split: option.splits prod.splits bool.splits list.splits if_splits)

lemma realloc_dom_stack_states_take:
  assumes "realloc_dom_stack_states w = (True, w1)"
    and "depth (stack w) \<le> length (states (stack w))"
  shows "take (depth (stack w)) (states (stack w1)) = take (depth (stack w)) (states (stack w))"
proof (cases "ALIGN_MEMORY_SIZE (depth (stack w)) < ALIGN_MEMORY_SIZE (depth (stack w) + 1)")
  case True
  then have "ALIGN_MEMORY_SIZE (depth (stack w)) = depth (stack w)"
    by (rule ALIGN_MEMORY_SIZE_grows)
  with True assms show ?thesis
    by (auto simp: realloc_dom_stack_states_def mem_align_alloc_def mem_realloc_def Let_def
             split: option.splits prod.splits bool.splits list.splits if_splits)
next
  case False
  with assms show ?thesis
    by (auto simp: realloc_dom_stack_states_def mem_align_alloc_def Let_def split: if_splits)
qed

lemma push_state_data_take:
  assumes "push_state_data w1 = (b, w2)"
  shows "take (depth (stack w1)) (states (stack w2)) = take (depth (stack w1)) (states (stack w1))"
    "length (states (stack w2)) = length (states (stack w1))"
    "depth (stack w2) = depth (stack w1)" "trace w2 = trace w1"
  using assms
  by (auto simp: push_state_data_def realloc_dom_stack_state_objects_def mem_align_alloc_def
                 mem_realloc_def Let_def
           split: option.splits prod.splits bool.splits list.splits if_splits)

lemma push_callback_Inl:
  "push_callback env w i n ty = (Inl e, w') \<Longrightarrow> e = Rejected \<or> e = Fatal"
  by (auto simp: push_callback_def Let_def split: prod.splits if_splits)

lemma push_dom_node_fails:
  assumes push: "push_dom_node env w n = (Inl e, w1)"
    and e: "e \<noteq> Fatal"
    and lf: "leaves_frames env"
    and inside: "depth (stack w) \<le> length (states (stack w))"
  shows "depth (stack w1) = depth (stack w)
         \<and> take (depth (stack w)) (states (stack w1)) = take (depth (stack w)) (states (stack w))
         \<and> depth (stack w) \<le> length (states (stack w1))
         \<and> (\<exists>evs. trace w1 = trace w @ evs \<and> (\<forall>m. Push m \<in> set evs \<longrightarrow> m = n))"
proof -
  obtain nd where v: "deref w n = Some nd"
    using push e by (cases "deref w n") (auto simp: push_dom_node_def)
  show ?thesis
  proof (cases "DOM_STACK_MAX_DEPTH env < depth (stack w)")
    case True
    with push v have "w1 = w"
      by (simp add: push_dom_node_def)
    with inside show ?thesis
      by simp
  next
    case within: False
    obtain b wa where r: "realloc_dom_stack_states w = (b, wa)"
      by (cases "realloc_dom_stack_states w")
    show ?thesis
    proof (cases b)
      case False
      with r push v within have "w1 = done_dom_node n wa"
        by (simp add: push_dom_node_def)
      moreover from r False have "stack wa = stack w" "trace wa = trace w"
        using realloc_dom_stack_states_False_stack [of w wa]
          realloc_dom_stack_states_False(2) [of w wa] by simp_all
      ultimately show ?thesis
        using inside by (simp add: done_dom_node_def)
    next
      case True
      with r have rt: "realloc_dom_stack_states w = (True, wa)"
        by simp
      note r' = realloc_dom_stack_states_True [OF rt]
      note rk = realloc_dom_stack_states_take [OF rt inside]
      have fits: "depth (stack wa) < length (states (stack wa))"
        using push v within rt e by (auto simp: push_dom_node_def split: if_splits)
      obtain b2 w2 where p: "push_state_data wa = (b2, w2)"
        by (cases "push_state_data wa")
      note p' = push_state_data_take [OF p]
      show ?thesis
      proof (cases b2)
        case False
        with p push v within rt fits have "w1 = done_dom_node n w2"
          by (simp add: push_dom_node_def)
        with p' r' rk fits show ?thesis
          by (simp add: done_dom_node_def)
      next
        case True
        with p push v within rt fits
        have c: "push_callback env (push_state_node w2 n) (depth (stack w)) n (type nd) = (Inl e, w1)"
          by (simp add: push_dom_node_def)
        with e have rej: "e = Rejected"
          using push_callback_Inl by blast
        note c' = push_callback_Rejected [OF c [unfolded rej] lf]
        have "depth (stack w1) = depth (stack w)"
          using c'(1) p'(3) r'(1) by (simp add: push_state_node_simps)
        moreover have "take (depth (stack w)) (states (stack w1)) = take (depth (stack w)) (states (stack w))"
          using c'(2) p'(1) p'(3) r'(1) rk by (simp add: push_state_node_simps)
        moreover have "depth (stack w) \<le> length (states (stack w1))"
          using c'(2) p'(2) r'(1) fits by (simp add: push_state_node_simps)
        moreover have "\<exists>evs. trace w1 = trace w @ evs \<and> (\<forall>m. Push m \<in> set evs \<longrightarrow> m = n)"
          using c'(4) p'(4) r'(2) by (auto simp: push_state_node_simps)
        ultimately show ?thesis
          by simp
      qed
    qed
  qed
qed

lemma walk_state_simps:
  "node (walk_state w nd state) = node state"
  "callback (walk_state w nd state) = callback state"
  by (simp_all add: walk_state_def Let_def)

text \<open>
  C10. In a round of the walk in which the top frame has a next child and the push of
  that child fails, by rejection, at the depth limit or for lack of memory, the round ends
  with the top frame popped: the depth is one less, the frames below are as they were, and
  the slot of the popped frame is cleared, so that its list and its index are forgotten and
  what was left of its lists is not gone through. The round opens no frame but, at most,
  that of the child, and its last event is the pop of the parent. (The callbacks leave the
  frame array and the depth as they found them; the exit callback of the parent is unset,
  or the parent is not the only frame.) On the page whose "div" has its first attribute
  rejected, the second attribute and the two children of "div" are never pushed by the
  walk.
\<close>

theorem walk_body_failed_child:
  assumes lf: "leaves_frames env"
    and inside: "depth (stack w) \<le> length (states (stack w))"
    and top: "state_at (stack w) (get_dom_stack_top (stack w)) = Some state"
    and nd: "deref w (node state) = Some nd"
    and child: "dom_node_list_entry w (list (walk_state w nd state))
                  (index (walk_state w nd state)) = Some child"
    and fails: "push_dom_node env
                  (set_top w ((walk_state w nd state)\<lparr>index := index (walk_state w nd state) + 1\<rparr>))
                  child = (Inl e, w1)"
    and e: "e \<noteq> Fatal"
    and target: "callback state = NULL \<or> 2 \<le> depth (stack w)"
  shows "\<exists>w'. walk_body env w = (Inr (), w')
           \<and> depth (stack w') = depth (stack w) - 1
           \<and> take (depth (stack w) - 1) (states (stack w'))
               = take (depth (stack w) - 1) (states (stack w))
           \<and> state_at (stack w') (get_dom_stack_top (stack w)) = Some zero_state
           \<and> (\<exists>evs. trace w' = trace w @ evs @ [Pop (node state)]
                  \<and> (\<forall>m. Push m \<in> set evs \<longrightarrow> m = child))"
proof -
  let ?d = "depth (stack w)"
  let ?st = "(walk_state w nd state)\<lparr>index := index (walk_state w nd state) + 1\<rparr>"
  let ?w0 = "set_top w ?st"
  have open_frame: "0 < ?d"
    using top by (simp add: state_at_def get_dom_stack_top_def split: if_splits)
  have w0: "depth (stack ?w0) = ?d" "states (stack ?w0) = (states (stack w))[?d - 1 := ?st]"
    "trace ?w0 = trace w"
    by (simp_all add: set_top_def get_dom_stack_top_def nat_int_pred)
  have inside0: "depth (stack ?w0) \<le> length (states (stack ?w0))"
    using inside w0 by simp
  from push_dom_node_fails [OF fails e lf inside0] w0
  obtain evs where d1: "depth (stack w1) = ?d"
    and k1: "take ?d (states (stack w1)) = take ?d ((states (stack w))[?d - 1 := ?st])"
    and l1: "?d \<le> length (states (stack w1))"
    and t1: "trace w1 = trace w @ evs"
    and p1: "\<forall>m. Push m \<in> set evs \<longrightarrow> m = child"
    by auto
  have "states (stack w1) ! (?d - 1) = take ?d (states (stack w1)) ! (?d - 1)"
    using open_frame by simp
  also have "\<dots> = ?st"
    using k1 open_frame inside by simp
  finally have top1: "states (stack w1) ! (?d - 1) = ?st" .
  let ?p = "states (stack w1) ! (?d - 2)"
  have tgt: "state_at (stack w1) (get_dom_stack_parent (stack w1)) = Some ?p"
    if "callback (states (stack w1) ! (depth (stack w1) - 1)) \<noteq> NULL"
  proof -
    from that top1 d1 have "callback state \<noteq> NULL"
      by (simp add: walk_state_simps)
    with target have "2 \<le> ?d"
      by simp
    with l1 d1 show ?thesis
      by (simp add: state_at_def get_dom_stack_parent_def nat_diff_distrib)
  qed
  from do_pop_dom_node_step [where parent = "get_dom_stack_parent (stack w1)" and p = ?p and w = w1,
      OF lf] tgt open_frame l1 d1 top1
  obtain w' where pop: "fst (do_pop_dom_node env w1 (get_dom_stack_parent (stack w1))) \<noteq> Inl Fatal"
      "snd (do_pop_dom_node env w1 (get_dom_stack_parent (stack w1))) = w'"
      "\<exists>b. fst (do_pop_dom_node env w1 (get_dom_stack_parent (stack w1))) = Inr b"
    and d': "depth (stack w') = ?d - 1"
    and s': "states (stack w') = (states (stack w1))[?d - 1 := zero_state]"
    and t': "trace w' = trace w1 @ unwind_events (node ?p) [?st]"
    by auto
  have popped: "pop_dom_node env w1 = (Inr (), w')"
    using pop d1 open_frame
    by (auto simp: pop_dom_node_def dom_stack_has_parents_def split: prod.splits sum.splits)
  have body: "walk_body env w = (Inr (), w')"
    using top nd child fails e popped by (simp add: walk_body_def Let_def)
  have "take (?d - 1) (states (stack w')) = take (?d - 1) (take ?d (states (stack w1)))"
    using s' by (simp add: min_def)
  also have "\<dots> = take (?d - 1) (states (stack w))"
    using k1 by (simp add: min_def)
  finally have frames: "take (?d - 1) (states (stack w')) = take (?d - 1) (states (stack w))" .
  have cleared: "state_at (stack w') (get_dom_stack_top (stack w)) = Some zero_state"
    using s' l1 open_frame by (simp add: state_at_def get_dom_stack_top_def nat_diff_distrib)
  have "trace w' = trace w @ (evs @ (if callback state \<noteq> NULL
                                     then [Exit (callback state) (node ?p) (data ?st)] else []))
                     @ [Pop (node state)]"
    using t' t1 by (simp add: unwind_events_def walk_state_simps)
  moreover have "\<forall>m. Push m \<in> set (evs @ (if callback state \<noteq> NULL
                                     then [Exit (callback state) (node ?p) (data ?st)] else []))
                   \<longrightarrow> m = child"
    using p1 by simp
  ultimately have "\<exists>evs. trace w' = trace w @ evs @ [Pop (node state)]
                  \<and> (\<forall>m. Push m \<in> set evs \<longrightarrow> m = child)"
    by blast
  with body d' frames cleared show ?thesis
    by blast
qed

theorem walk_body_failed_child_witness:
  "leaves_frames env_reject_id
   \<and> state_at (stack page_open) (get_dom_stack_top (stack page_open))
       = Some (zero_state\<lparr>node := 2\<rparr>)
   \<and> map_option element_map (deref page_open 2) = Some 13
   \<and> lists page_open 13 = Some [5, 6]
   \<and> map_option element_children (deref page_open 2) = Some 11
   \<and> lists page_open 11 = Some [3, 7]
   \<and> fst (push_dom_node env_reject_id
            (set_top page_open (zero_state\<lparr>node := 2, list := 13, index := 1\<rparr>)) 5) = Inl Rejected
   \<and> fst (walk_body env_reject_id page_open) = Inr ()
   \<and> depth (stack page_open) = 2
   \<and> depth (stack (snd (walk_body env_reject_id page_open))) = 1
   \<and> trace (snd (walk_body env_reject_id page_open)) = trace page_open @ [Push 5, Entry 1 5 None, Unpush 5, Pop 2]
   \<and> map_option (\<lambda>(r, w). (r, trace w))
        (walk_dom_nodes env_reject_id (fresh_world 0 page_nodes page_lists []) 1)
       = Some (Inr (), [Push 1, Entry 1 1 None, Push 2, Entry 1 2 None,
                        Push 5, Entry 1 5 None, Unpush 5, Pop 2, Pop 1])"
proof -
  let ?state = "zero_state\<lparr>node := 2\<rparr>"
  let ?nd = "(leaf DOM_NODE_ELEMENT ''div'')\<lparr>element_map := 13, element_children := 11\<rparr>"
  let ?st = "zero_state\<lparr>node := 2, list := 13, index := 1\<rparr>"
  let ?w1 = "snd (push_dom_node env_reject_id (set_top page_open ?st) 5)"
  let ?f = "fresh_world 0 page_nodes page_lists []"
  have inside: "depth (stack page_open) \<le> length (states (stack page_open))"
    by code_simp
  have top: "state_at (stack page_open) (get_dom_stack_top (stack page_open)) = Some ?state"
    by code_simp
  have nd: "deref page_open (node ?state) = Some ?nd"
    by code_simp
  have st: "(walk_state page_open ?nd ?state)\<lparr>index := index (walk_state page_open ?nd ?state) + 1\<rparr> = ?st"
    by code_simp
  have child: "dom_node_list_entry page_open (list (walk_state page_open ?nd ?state))
                  (index (walk_state page_open ?nd ?state)) = Some 5"
    by code_simp
  have res: "fst (push_dom_node env_reject_id (set_top page_open ?st) 5) = Inl Rejected"
    by code_simp
  then have fails: "push_dom_node env_reject_id
      (set_top page_open ((walk_state page_open ?nd ?state)\<lparr>index := index (walk_state page_open ?nd ?state) + 1\<rparr>))
      5 = (Inl Rejected, ?w1)"
    unfolding st by (metis prod.collapse)
  have target: "callback ?state = NULL \<or> 2 \<le> depth (stack page_open)"
    by code_simp
  from walk_body_failed_child [OF leaves_frames_reject_id inside top nd child fails _ target]
  have round: "fst (walk_body env_reject_id page_open) = Inr ()"
    "depth (stack (snd (walk_body env_reject_id page_open))) = depth (stack page_open) - 1"
    by auto
  have facts: "depth (stack page_open) = 2"
    "map_option element_map (deref page_open 2) = Some 13"
    "lists page_open 13 = Some [5, 6]"
    "map_option element_children (deref page_open 2) = Some 11"
    "lists page_open 11 = Some [3, 7]"
    "trace (snd (walk_body env_reject_id page_open)) = trace page_open @ [Push 5, Entry 1 5 None, Unpush 5, Pop 2]"
    by code_simp+
  have "fst (push_dom_node env_reject_id ?f 1) \<noteq> Inl Fatal"
    "fst (walk_rounds 3 env_reject_id (snd (push_dom_node env_reject_id ?f 1))) \<noteq> Inr ()
     \<or> \<not> dom_stack_has_parents
           (stack (snd (walk_rounds 3 env_reject_id (snd (push_dom_node env_reject_id ?f 1)))))"
    by code_simp+
  then have "walk_dom_nodes env_reject_id ?f 1
               = Some (walk_rounds 3 env_reject_id (snd (push_dom_node env_reject_id ?f 1)))"
    by (rule walk_dom_nodes_rounds)
  moreover have "(\<lambda>(r, w). (r, trace w))
                   (walk_rounds 3 env_reject_id (snd (push_dom_node env_reject_id ?f 1)))
     = (Inr (), [Push 1, Entry 1 1 None, Push 2, Entry 1 2 None,
                        Push 5, Entry 1 5 None, Unpush 5, Pop 2, Pop 1])"
    by code_simp
  ultimately have walk: "map_option (\<lambda>(r, w). (r, trace w))
        (walk_dom_nodes env_reject_id ?f 1)
       = Some (Inr (), [Push 1, Entry 1 1 None, Push 2, Entry 1 2 None,
                        Push 5, Entry 1 5 None, Unpush 5, Pop 2, Pop 1])"
    by simp
  from round facts res top walk leaves_frames_reject_id show ?thesis
    by simp
qed

end
